theory Spec2Isabelle
  imports Main
begin

chapter \<open>Part I: the model\<close>

section \<open>JavaScript values\<close>

text \<open>
  The translator, the sanitizer and the guardrails work on plain JavaScript values typed
  \<^verbatim>\<open>unknown\<close> or \<^verbatim>\<open>Record<string, unknown>\<close>. A value is modelled by the
  datatype below. An object is the list of its own enumerable entries in the order
  \<^verbatim>\<open>Object.entries\<close> reports them. Numbers are restricted to the integers (no
  fractions, NaN or infinities). A \<^verbatim>\<open>Date\<close> is represented by the text that
  \<^verbatim>\<open>String(d)\<close> returns for it, a \<^verbatim>\<open>RegExp\<close> by its \<^verbatim>\<open>source\<close>.

  An array is the list of its slots, from index 0 to its length. JavaScript arrays can be
  sparse: in \<^verbatim>\<open>[1,,3]\<close>, in \<^verbatim>\<open>new Array(3)\<close> or after \<^verbatim>\<open>delete a[1]\<close> a slot
  below the length holds no property. Such an empty slot is \<open>JHole\<close>. It is no value of
  its own and occurs only as a slot of an array: reading it yields \<^verbatim>\<open>undefined\<close>,
  while \<^verbatim>\<open>map\<close> and \<^verbatim>\<open>Object.entries\<close> pass over it.
\<close>

datatype jsval =
    JNull
  | JUndefined
  | JBool bool
  | JNum int
  | JStr string
  | JDate string
  | JRegExp string
  | JArr "jsval list"
  | JObj "(string \<times> jsval) list"
  | JHole

type_synonym jsrecord = "(string \<times> jsval) list"

definition apos :: string where
  "apos = [CHR 0x27]"

section \<open>Errors (errors.ts)\<close>

datatype StrictErrorCode =
    CONNECTION_FAILED
  | CONNECTION_LOST
  | AUTHENTICATION_FAILED
  | TIMEOUT
  | POOL_EXHAUSTED
  | DUPLICATE_KEY
  | VALIDATION_ERROR
  | COLLECTION_NOT_FOUND
  | QUERY_ERROR
  | GUARDRAIL_BLOCKED
  | UNKNOWN_OPERATOR
  | SCHEMA_MISMATCH
  | UNSUPPORTED_OPERATION
  | INTERNAL_ERROR

datatype Backend = Mongo | Sql | Elastic

text \<open>The argument object of the \<^verbatim>\<open>StrictDBError\<close> constructor; an omitted optional
  property is \<open>None\<close>. The opaque \<^verbatim>\<open>originalError\<close> is left out.\<close>

record error_opts =
  opt_code :: StrictErrorCode
  opt_message :: string
  opt_fix :: string
  opt_backend :: Backend
  opt_collection :: "string option"
  opt_operation :: "string option"
  opt_retryable :: "bool option"

text \<open>The fields of a constructed \<^verbatim>\<open>StrictDBError\<close> (the timestamp is left out).\<close>

record strictdb_error =
  err_code :: StrictErrorCode
  err_message :: string
  err_fix :: string
  err_backend :: Backend
  err_collection :: "string option"
  err_operation :: "string option"
  err_retryable :: bool

definition StrictDBError :: "error_opts \<Rightarrow> strictdb_error" where
  "StrictDBError opts =
     \<lparr> err_code = opt_code opts,
       err_message = opt_message opts @ '' Fix: '' @ opt_fix opts,
       err_fix = opt_fix opts,
       err_backend = opt_backend opts,
       err_collection = opt_collection opts,
       err_operation = opt_operation opts,
       err_retryable = (case opt_retryable opts of None \<Rightarrow> False | Some r \<Rightarrow> r) \<rparr>"

definition ERROR_RETRYABLE :: "StrictErrorCode \<Rightarrow> bool" where
  "ERROR_RETRYABLE c =
     (case c of
        CONNECTION_FAILED \<Rightarrow> True
      | CONNECTION_LOST \<Rightarrow> True
      | AUTHENTICATION_FAILED \<Rightarrow> False
      | TIMEOUT \<Rightarrow> True
      | POOL_EXHAUSTED \<Rightarrow> True
      | DUPLICATE_KEY \<Rightarrow> False
      | VALIDATION_ERROR \<Rightarrow> False
      | COLLECTION_NOT_FOUND \<Rightarrow> False
      | QUERY_ERROR \<Rightarrow> False
      | GUARDRAIL_BLOCKED \<Rightarrow> False
      | UNKNOWN_OPERATOR \<Rightarrow> False
      | SCHEMA_MISMATCH \<Rightarrow> False
      | UNSUPPORTED_OPERATION \<Rightarrow> False
      | INTERNAL_ERROR \<Rightarrow> False)"

text \<open>What a call can throw: a \<^verbatim>\<open>StrictDBError\<close>, or the runtime's own
  \<^verbatim>\<open>TypeError\<close> (for instance \<^verbatim>\<open>Object.entries(null)\<close>).\<close>

datatype thrown = Thrown strictdb_error | TypeError

section \<open>Guardrails (guardrails.ts)\<close>

text \<open>The events published on the emitter, in order.\<close>

datatype event = GuardrailBlocked string string string

record guardrail_options =
  gr_limit :: "int option"
  gr_confirm :: "string option"

definition isEmptyFilter :: "jsrecord \<Rightarrow> bool" where
  "isEmptyFilter flt = (length (map fst flt) = 0)"

definition emitAndThrow :: "string \<Rightarrow> string \<Rightarrow> string \<Rightarrow> string \<Rightarrow> event list \<times> (thrown + unit)" where
  "emitAndThrow collection operation msg fx =
     ([GuardrailBlocked collection operation msg],
      Inl (Thrown (StrictDBError
        \<lparr> opt_code = GUARDRAIL_BLOCKED, opt_message = msg, opt_fix = fx, opt_backend = Mongo,
          opt_collection = Some collection, opt_operation = Some operation,
          opt_retryable = None \<rparr>)))"

text \<open>\<^verbatim>\<open>options?.confirm\<close> and \<^verbatim>\<open>options?.limit\<close>: undefined when the options
  object is absent.\<close>

definition options_confirm :: "guardrail_options option \<Rightarrow> string option" where
  "options_confirm os = (case os of None \<Rightarrow> None | Some o' \<Rightarrow> gr_confirm o')"

definition options_limit :: "guardrail_options option \<Rightarrow> int option" where
  "options_limit os = (case os of None \<Rightarrow> None | Some o' \<Rightarrow> gr_limit o')"

text \<open>\<open>checkGuardrails\<close> returns the events it emitted and either the thrown error or
  unit. The first argument is \<^verbatim>\<open>ctx.enabled\<close>.\<close>

definition checkGuardrails ::
  "bool \<Rightarrow> string \<Rightarrow> string \<Rightarrow> jsrecord \<Rightarrow> guardrail_options option \<Rightarrow> event list \<times> (thrown + unit)" where
  \<open>checkGuardrails enabled operation collection flt os =
     (if \<not> enabled then ([], Inr ())
      else let isEmpty = isEmptyFilter flt in
        if operation = ''deleteMany'' then
          (if isEmpty \<and> options_confirm os \<noteq> Some ''DELETE_ALL'' then
             emitAndThrow collection operation
               ''deleteMany requires a non-empty filter to prevent accidental data loss.''
               (''To delete all documents: db.deleteMany('' @ apos @ collection @ apos @
                '', { _id: { $exists: true } }, { confirm: 'DELETE_ALL' })'')
           else ([], Inr ()))
        else if operation = ''updateMany'' then
          (if isEmpty \<and> options_confirm os \<noteq> Some ''UPDATE_ALL'' then
             emitAndThrow collection operation
               ''updateMany requires a non-empty filter to prevent accidental mass updates.''
               (''To update all documents: db.updateMany('' @ apos @ collection @ apos @
                '', { _id: { $exists: true } }, update, { confirm: 'UPDATE_ALL' })'')
           else ([], Inr ()))
        else if operation = ''deleteOne'' then
          (if isEmpty then
             emitAndThrow collection operation
               ''deleteOne requires a non-empty filter. An empty filter would delete an arbitrary document.''
               (''Specify a filter to identify the document: db.deleteOne('' @ apos @ collection @ apos @
                '', { id: "..." })'')
           else ([], Inr ()))
        else if operation = ''queryMany'' then
          (if options_limit os = None then
             emitAndThrow collection operation
               ''queryMany without a limit could return millions of rows.''
               (''Always include a limit: db.queryMany('' @ apos @ collection @ apos @
                '', filter, { limit: 100 })'')
           else ([], Inr ()))
        else ([], Inr ()))\<close>

text \<open>The decision table of the specification, in its own words: the combinations that
  block when guardrails are enabled. A filter is empty iff it has zero keys.\<close>

definition spec_blocks :: "string \<Rightarrow> jsrecord \<Rightarrow> guardrail_options option \<Rightarrow> bool" where
  "spec_blocks operation flt os =
     ((operation = ''deleteMany'' \<and> flt = [] \<and> options_confirm os \<noteq> Some ''DELETE_ALL'') \<or>
      (operation = ''updateMany'' \<and> flt = [] \<and> options_confirm os \<noteq> Some ''UPDATE_ALL'') \<or>
      (operation = ''deleteOne'' \<and> flt = []) \<or>
      (operation = ''queryMany'' \<and> options_limit os = None))"

section \<open>JavaScript helpers\<close>

text \<open>
  A number in a template literal is printed in decimal. (JavaScript switches to exponent
  notation from \<open>10\<^sup>2\<^sup>1\<close> on; such magnitudes are outside the model.)
\<close>

fun show_nat :: "nat \<Rightarrow> string" where
  "show_nat n =
     (if n < 10 then [''0123456789'' ! n]
      else show_nat (n div 10) @ [''0123456789'' ! (n mod 10)])"

declare show_nat.simps [simp del]

definition show_int :: "int \<Rightarrow> string" where
  "show_int i = (if i < 0 then ''-'' @ show_nat (nat (- i)) else show_nat (nat i))"

text \<open>\<^verbatim>\<open>Array.prototype.join\<close> on an array of strings.\<close>

fun js_join :: "string \<Rightarrow> string list \<Rightarrow> string" where
  "js_join sep [] = []"
| "js_join sep [x] = x"
| "js_join sep (x # y # zs) = x @ sep @ js_join sep (y # zs)"

text \<open>\<^verbatim>\<open>String(value)\<close>: an array prints its elements joined by commas, with null and
  undefined elements and empty slots printed as the empty string; a plain object prints
  as \<^verbatim>\<open>[object Object]\<close>; a regular expression is printed without flags.\<close>

fun js_String :: "jsval \<Rightarrow> string" where
  "js_String JNull = ''null''"
| "js_String JUndefined = ''undefined''"
| "js_String (JBool b) = (if b then ''true'' else ''false'')"
| "js_String (JNum n) = show_int n"
| "js_String (JStr s) = s"
| "js_String (JDate s) = s"
| "js_String (JRegExp src) = ''/'' @ src @ ''/''"
| "js_String (JArr xs) =
     js_join '','' (map (\<lambda>x. if x = JNull \<or> x = JUndefined \<or> x = JHole then [] else js_String x) xs)"
| "js_String (JObj kvs) = ''[object Object]''"
| "js_String JHole = ''undefined''"

text \<open>
  The array operations the translators use. \<open>array_join\<close> is
  \<^verbatim>\<open>Array.prototype.join\<close>: null, undefined and empty slots print as the empty string.
  \<open>array_map\<close> is \<^verbatim>\<open>Array.prototype.map\<close> with a callback of the element and its
  index: the callback is not called for an empty slot, and the slot stays empty in the
  result. \<open>spread\<close> is the iteration of an array by \<^verbatim>\<open>...arr\<close> or \<^verbatim>\<open>for ... of\<close>:
  it visits every index below the length and reads an empty slot as undefined.
\<close>

definition array_join :: "string \<Rightarrow> jsval list \<Rightarrow> string" where
  "array_join sep arr =
     js_join sep (map (\<lambda>x. if x = JNull \<or> x = JUndefined \<or> x = JHole then [] else js_String x) arr)"

definition array_map :: "(jsval \<Rightarrow> nat \<Rightarrow> jsval) \<Rightarrow> jsval list \<Rightarrow> jsval list" where
  "array_map f arr = map (\<lambda>(i, x). if x = JHole then JHole else f x i) (zip [0..<length arr] arr)"

definition spread :: "jsval list \<Rightarrow> jsval list" where
  "spread arr = map (\<lambda>x. if x = JHole then JUndefined else x) arr"

text \<open>\<^verbatim>\<open>Object.entries(value)\<close>. It throws a TypeError on null and undefined (the
  result \<open>None\<close>), lists the index properties of an array (an empty slot has none) or a
  string, and is empty for every other primitive, for a Date and for a RegExp.\<close>

fun object_entries :: "jsval \<Rightarrow> jsrecord option" where
  "object_entries JNull = None"
| "object_entries JUndefined = None"
| "object_entries JHole = None"
| "object_entries (JObj kvs) = Some kvs"
| "object_entries (JArr xs) =
     Some (filter (\<lambda>kv. snd kv \<noteq> JHole) (zip (map show_nat [0..<length xs]) xs))"
| "object_entries (JStr s) = Some (zip (map show_nat [0..<length s]) (map (\<lambda>c. JStr [c]) s))"
| "object_entries v = Some []"

text \<open>A size of values for termination proofs: every entry that \<open>object_entries\<close>
  reports under a \<^verbatim>\<open>$\<close>-key is lighter than the value itself.\<close>

fun weight :: "jsval \<Rightarrow> nat" where
  "weight (JArr xs) = Suc (sum_list (map (\<lambda>x. Suc (weight x)) xs))"
| "weight (JObj kvs) = Suc (sum_list (map (\<lambda>kv. Suc (weight (snd kv))) kvs))"
| "weight (JStr s) = Suc (length s)"
| "weight v = Suc 0"

section \<open>SQL filter translation (filter-translator.ts)\<close>

text \<open>
  The dialects are \<^verbatim>\<open>'pg'\<close>, \<^verbatim>\<open>'mysql2'\<close>, \<^verbatim>\<open>'mssql'\<close> and \<^verbatim>\<open>'sqlite'\<close>. A
  translation is the pair of the clause text and the parameter values, in the record
  \<open>SqlTranslation\<close> (the field \<open>vals\<close> is the source's \<^verbatim>\<open>values\<close>). Parameter indices are
  natural numbers. A \<^verbatim>\<open>throw\<close> is the result \<open>Inl\<close>.
\<close>

datatype SqlDialect = Pg | Mysql2 | Mssql | Sqlite

record SqlTranslation =
  clause :: string
  vals :: "jsval list"

definition startsWith :: "string \<Rightarrow> string \<Rightarrow> bool" where
  "startsWith s p = (take (length p) s = p)"

definition endsWith :: "string \<Rightarrow> string \<Rightarrow> bool" where
  "endsWith s p = (length p \<le> length s \<and> drop (length s - length p) s = p)"

text \<open>Truthiness, as \<^verbatim>\<open>!value\<close> and a conditional test see it.\<close>

definition js_truthy :: "jsval \<Rightarrow> bool" where
  "js_truthy v =
     (case v of JNull \<Rightarrow> False | JUndefined \<Rightarrow> False | JHole \<Rightarrow> False | JBool b \<Rightarrow> b
      | JNum n \<Rightarrow> n \<noteq> 0 | JStr s \<Rightarrow> s \<noteq> [] | _ \<Rightarrow> True)"

definition quoteIdentifier :: "string \<Rightarrow> string" where
  \<open>quoteIdentifier name =
     (let sanitized = concat (map (\<lambda>c. if c = CHR ''"'' then ''""'' else [c]) name)
      in ''"'' @ sanitized @ ''"'')\<close>

definition placeholder :: "SqlDialect \<Rightarrow> nat \<Rightarrow> string" where
  "placeholder dialect idx =
     (case dialect of
        Pg \<Rightarrow> ''$'' @ show_nat idx
      | Mysql2 \<Rightarrow> ''?''
      | Mssql \<Rightarrow> ''@p'' @ show_nat idx
      | Sqlite \<Rightarrow> ''?'')"

text \<open>\<^verbatim>\<open>s.replace(/\.\*/g, '%')\<close>: every occurrence of dot-star, from the left.\<close>

fun replace_dot_star :: "string \<Rightarrow> string" where
  "replace_dot_star (a # b # cs) =
     (if a = CHR ''.'' \<and> b = CHR ''*'' then CHR ''%'' # replace_dot_star cs
      else a # replace_dot_star (b # cs))"
| "replace_dot_star cs = cs"

definition regexToLike :: "string \<Rightarrow> string \<Rightarrow> SqlDialect \<Rightarrow> nat \<Rightarrow> SqlTranslation" where
  "regexToLike quotedKey pattern dialect paramIdx =
     (let likePattern0 = concat (map (\<lambda>ch. if ch = CHR ''%'' \<or> ch = CHR ''_'' then [CHR 0x5C, ch] else [ch]) pattern);
          startsWithAnchor = startsWith likePattern0 ''^'';
          endsWithAnchor = endsWith likePattern0 ''$'';
          likePattern1 = (if startsWithAnchor then drop 1 likePattern0 else likePattern0);
          likePattern2 = (if endsWithAnchor then butlast likePattern1 else likePattern1);
          likePattern3 = map (\<lambda>ch. if ch = CHR ''.'' then CHR ''_'' else ch) (replace_dot_star likePattern2);
          likePattern4 = (if \<not> startsWithAnchor then ''%'' @ likePattern3 else likePattern3);
          likePattern5 = (if \<not> endsWithAnchor then likePattern4 @ ''%'' else likePattern4)
      in \<lparr> clause = quotedKey @ '' LIKE '' @ placeholder dialect paramIdx,
           vals = [JStr likePattern5] \<rparr>)"

definition translateRegexToSQL :: "string \<Rightarrow> string \<Rightarrow> SqlDialect \<Rightarrow> nat \<Rightarrow> SqlTranslation" where
  "translateRegexToSQL quotedKey pattern dialect paramIdx =
     (case dialect of
        Pg \<Rightarrow> \<lparr> clause = quotedKey @ '' ~ '' @ placeholder dialect paramIdx, vals = [JStr pattern] \<rparr>
      | Mysql2 \<Rightarrow> \<lparr> clause = quotedKey @ '' REGEXP '' @ placeholder dialect paramIdx, vals = [JStr pattern] \<rparr>
      | Mssql \<Rightarrow> regexToLike quotedKey pattern dialect paramIdx
      | Sqlite \<Rightarrow> regexToLike quotedKey pattern dialect paramIdx)"

definition unknownFilterOperator :: "string \<Rightarrow> Backend \<Rightarrow> thrown" where
  \<open>unknownFilterOperator op be = Thrown (StrictDBError
     \<lparr> opt_code = UNKNOWN_OPERATOR,
       opt_message = ''Unknown filter operator "'' @ op @ ''".'',
       opt_fix = ''Supported operators: $eq, $ne, $gt, $gte, $lt, $lte, $in, $nin, $exists, $regex, $not, $size.'',
       opt_backend = be, opt_collection = None, opt_operation = None, opt_retryable = None \<rparr>)\<close>

text \<open>
  \<open>translateOperatorToSQL\<close> is the operator switch. Its \<^verbatim>\<open>$not\<close> case loops over the
  entries of the nested bag; the loop is \<open>notLoop\<close>, which carries the source's mutable
  \<^verbatim>\<open>parts\<close>, \<^verbatim>\<open>values\<close> and \<^verbatim>\<open>idx\<close> as arguments and skips empty clauses. The
  cases \<^verbatim>\<open>$in\<close> and \<^verbatim>\<open>$nin\<close> build the placeholder list with
  \<^verbatim>\<open>arr.map(...).join(', ')\<close> and return the array itself as the values. A
  \<^verbatim>\<open>values.push(...result.values)\<close> appends the \<open>spread\<close> of the returned values, and
  the index advances by their \<^verbatim>\<open>length\<close>.
\<close>

function (sequential)
  translateOperatorToSQL :: "string \<Rightarrow> string \<Rightarrow> jsval \<Rightarrow> SqlDialect \<Rightarrow> nat \<Rightarrow> thrown + SqlTranslation"
  and notLoop :: "string \<Rightarrow> jsrecord \<Rightarrow> SqlDialect \<Rightarrow> string list \<Rightarrow> jsval list \<Rightarrow> nat \<Rightarrow> thrown + (string list \<times> jsval list)"
where
  "translateOperatorToSQL quotedKey op v dialect paramIdx =
     (if op = ''$eq'' then
        (if v = JNull then Inr \<lparr> clause = quotedKey @ '' IS NULL'', vals = [] \<rparr>
         else Inr \<lparr> clause = quotedKey @ '' = '' @ placeholder dialect paramIdx, vals = [v] \<rparr>)
      else if op = ''$ne'' then
        (if v = JNull then Inr \<lparr> clause = quotedKey @ '' IS NOT NULL'', vals = [] \<rparr>
         else Inr \<lparr> clause = quotedKey @ '' != '' @ placeholder dialect paramIdx, vals = [v] \<rparr>)
      else if op = ''$gt'' then
        Inr \<lparr> clause = quotedKey @ '' > '' @ placeholder dialect paramIdx, vals = [v] \<rparr>
      else if op = ''$gte'' then
        Inr \<lparr> clause = quotedKey @ '' >= '' @ placeholder dialect paramIdx, vals = [v] \<rparr>
      else if op = ''$lt'' then
        Inr \<lparr> clause = quotedKey @ '' < '' @ placeholder dialect paramIdx, vals = [v] \<rparr>
      else if op = ''$lte'' then
        Inr \<lparr> clause = quotedKey @ '' <= '' @ placeholder dialect paramIdx, vals = [v] \<rparr>
      else if op = ''$in'' then
        (case v of
           JArr arr \<Rightarrow>
             if length arr = 0 then Inr \<lparr> clause = ''1=0'', vals = [] \<rparr>
             else
               let placeholders =
                     array_join '', '' (array_map (\<lambda>_ i. JStr (placeholder dialect (paramIdx + i))) arr)
               in Inr \<lparr> clause = quotedKey @ '' IN ('' @ placeholders @ '')'', vals = arr \<rparr>
         | _ \<Rightarrow> Inr \<lparr> clause = ''1=0'', vals = [] \<rparr>)
      else if op = ''$nin'' then
        (case v of
           JArr arr \<Rightarrow>
             if length arr = 0 then Inr \<lparr> clause = ''1=1'', vals = [] \<rparr>
             else
               let placeholders =
                     array_join '', '' (array_map (\<lambda>_ i. JStr (placeholder dialect (paramIdx + i))) arr)
               in Inr \<lparr> clause = quotedKey @ '' NOT IN ('' @ placeholders @ '')'', vals = arr \<rparr>
         | _ \<Rightarrow> Inr \<lparr> clause = ''1=1'', vals = [] \<rparr>)
      else if op = ''$exists'' then
        (if js_truthy v then Inr \<lparr> clause = quotedKey @ '' IS NOT NULL'', vals = [] \<rparr>
         else Inr \<lparr> clause = quotedKey @ '' IS NULL'', vals = [] \<rparr>)
      else if op = ''$regex'' then
        (let pattern = (case v of JRegExp src \<Rightarrow> src | _ \<Rightarrow> js_String v)
         in Inr (translateRegexToSQL quotedKey pattern dialect paramIdx))
      else if op = ''$options'' then
        Inr \<lparr> clause = [], vals = [] \<rparr>
      else if op = ''$not'' then
        (case object_entries v of
           None \<Rightarrow> Inl TypeError
         | Some sub \<Rightarrow>
             (case notLoop quotedKey sub dialect [] [] paramIdx of
                Inl e \<Rightarrow> Inl e
              | Inr (parts, values) \<Rightarrow>
                  if length parts = 0 then Inr \<lparr> clause = [], vals = [] \<rparr>
                  else Inr \<lparr> clause = ''NOT ('' @ js_join '' AND '' parts @ '')'', vals = values \<rparr>))
      else if op = ''$size'' then
        (if dialect = Pg then
           Inr \<lparr> clause = ''jsonb_array_length('' @ quotedKey @ '') = '' @ placeholder dialect paramIdx, vals = [v] \<rparr>
         else if dialect = Mysql2 then
           Inr \<lparr> clause = ''JSON_LENGTH('' @ quotedKey @ '') = '' @ placeholder dialect paramIdx, vals = [v] \<rparr>
         else
           Inr \<lparr> clause = ''json_array_length('' @ quotedKey @ '') = '' @ placeholder dialect paramIdx, vals = [v] \<rparr>)
      else Inl (unknownFilterOperator op Sql))"
| "notLoop quotedKey [] dialect parts values idx = Inr (parts, values)"
| "notLoop quotedKey ((subOp, subVal) # rest) dialect parts values idx =
     (case translateOperatorToSQL quotedKey subOp subVal dialect idx of
        Inl e \<Rightarrow> Inl e
      | Inr result \<Rightarrow>
          if clause result \<noteq> [] then
            notLoop quotedKey rest dialect (parts @ [clause result]) (values @ spread (vals result))
              (idx + length (vals result))
          else notLoop quotedKey rest dialect parts values idx)"
  by pat_completeness auto

text \<open>Termination: the recursion only follows entries whose key satisfies a test
  that index keys never pass (they are digits, the test asks for a dollar sign).\<close>

fun entries_weight :: "(string \<Rightarrow> bool) \<Rightarrow> jsrecord \<Rightarrow> nat" where
  "entries_weight P [] = 0"
| "entries_weight P ((k, v) # rest) = Suc ((if P k then weight v else 0) + entries_weight P rest)"

lemma show_nat_digits: "set (show_nat n) \<subseteq> set ''0123456789''"
proof (induction n rule: show_nat.induct)
  case (1 n)
  have d: "\<And>m. m < 10 \<Longrightarrow> ''0123456789'' ! m \<in> set ''0123456789''"
    by (rule nth_mem) simp
  show ?case
  proof (cases "n < 10")
    case True
    then show ?thesis using d [of n] by (subst show_nat.simps) simp
  next
    case False
    have "n mod 10 < 10" by simp
    with False 1 d [of "n mod 10"] show ?thesis
      by (subst show_nat.simps) simp
  qed
qed

lemma entries_weight_le:
  "entries_weight P kvs \<le> sum_list (map (\<lambda>kv. Suc (weight (snd kv))) kvs)"
  by (induction P kvs rule: entries_weight.induct) auto

lemma entries_weight_index:
  assumes "\<And>k. P k \<Longrightarrow> CHR ''$'' \<in> set k"
  shows "entries_weight P (filter Q (zip (map show_nat ns) vs)) \<le> length vs"
proof (induction ns arbitrary: vs)
  case Nil
  then show ?case by simp
next
  case (Cons n ns)
  show ?case
  proof (cases vs)
    case Nil
    then show ?thesis by simp
  next
    case (Cons v vs')
    have "\<not> P (show_nat n)"
    proof
      assume "P (show_nat n)"
      then have "CHR ''$'' \<in> set (show_nat n)" by (rule assms)
      with show_nat_digits [of n] show False by auto
    qed
    with Cons Cons.IH [of vs'] show ?thesis by simp
  qed
qed

lemma weight_spread:
  "sum_list (map (\<lambda>f. Suc (weight f)) (spread fs)) = sum_list (map (\<lambda>f. Suc (weight f)) fs)"
  by (induction fs) (simp_all add: spread_def)

lemma length_spread: "length (spread xs) = length xs"
  by (simp add: spread_def)

lemma entries_weight_object_entries:
  assumes "\<And>k. P k \<Longrightarrow> CHR ''$'' \<in> set k" and "object_entries v = Some es"
  shows "entries_weight P es < weight v"
proof (cases v)
  case (JStr s)
  with assms(2)
    entries_weight_index [OF assms(1), of P "\<lambda>kv. True" "[0..<length s]" "map (\<lambda>c. JStr [c]) s"]
  show ?thesis by auto
next
  case (JArr xs)
  have "length xs \<le> sum_list (map (\<lambda>x. Suc (weight x)) xs)"
    by (induction xs) auto
  with JArr assms(2)
    entries_weight_index [OF assms(1), of P "\<lambda>kv. snd kv \<noteq> JHole" "[0..<length xs]" xs]
  show ?thesis by auto
next
  case (JObj kvs)
  with assms(2) entries_weight_le [of P kvs] show ?thesis by auto
qed (use assms(2) in auto)

termination translateOperatorToSQL
proof (relation "measure (\<lambda>x. case x of
          Inl (q, op, v, d, i) \<Rightarrow> (if op = ''$not'' then weight v else 0)
        | Inr (q, es, d, ps, vs, i) \<Rightarrow> entries_weight (\<lambda>k. k = ''$not'') es)", goal_cases)
  case 1
  then show ?case by simp
next
  case (2 quotedKey op v dialect paramIdx sub)
  then show ?case
    using entries_weight_object_entries [of "\<lambda>k. k = ''$not''" v sub] by simp
next
  case 3
  then show ?case by simp
next
  case 4
  then show ?case by simp
next
  case 5
  then show ?case by simp
qed

text \<open>
  \<open>translateToSQL\<close> with its three loops. \<open>opsLoop\<close> is the loop over the operators of
  one bag (every clause is pushed, also an empty one), \<open>entriesLoop\<close> the loop over the
  entries of the filter, \<open>subLoop\<close> the loop over the sub-filters of a logical key. Each
  carries the source's mutable variables as arguments and returns their final values.
  The filter argument is any value, as at the recursive call on the elements of a
  logical array; the \<^verbatim>\<open>for ... of\<close> over that array visits the \<open>spread\<close> of it.
\<close>

fun opsLoop :: "string \<Rightarrow> jsrecord \<Rightarrow> SqlDialect \<Rightarrow> string list \<Rightarrow> jsval list \<Rightarrow> nat
    \<Rightarrow> thrown + (string list \<times> jsval list \<times> nat)" where
  "opsLoop quotedKey [] dialect parts values paramIdx = Inr (parts, values, paramIdx)"
| "opsLoop quotedKey ((op, opVal) # rest) dialect parts values paramIdx =
     (case translateOperatorToSQL quotedKey op opVal dialect paramIdx of
        Inl e \<Rightarrow> Inl e
      | Inr result \<Rightarrow>
          opsLoop quotedKey rest dialect (parts @ [clause result]) (values @ spread (vals result))
            (paramIdx + length (vals result)))"

definition unsupportedTopLevel :: "string \<Rightarrow> thrown" where
  \<open>unsupportedTopLevel key = Thrown (StrictDBError
     \<lparr> opt_code = UNKNOWN_OPERATOR,
       opt_message = ''Top-level operator "'' @ key @ ''" is not supported in filter.'',
       opt_fix = ''Supported top-level operators: $and, $or, $nor. Field operators ($gt, $lt, etc.) must be nested inside a field: { fieldName: { '' @ key @ '': value } }.'',
       opt_backend = Sql, opt_collection = None, opt_operation = None, opt_retryable = None \<rparr>)\<close>

definition isLogicalKey :: "string \<Rightarrow> bool" where
  "isLogicalKey key = (key = ''$and'' \<or> key = ''$or'' \<or> key = ''$nor'')"

function (sequential)
  translateToSQL :: "jsval \<Rightarrow> SqlDialect \<Rightarrow> nat \<Rightarrow> thrown + SqlTranslation"
  and entriesLoop :: "jsrecord \<Rightarrow> SqlDialect \<Rightarrow> string list \<Rightarrow> jsval list \<Rightarrow> nat
    \<Rightarrow> thrown + (string list \<times> jsval list)"
  and subLoop :: "jsval list \<Rightarrow> SqlDialect \<Rightarrow> string list \<Rightarrow> jsval list \<Rightarrow> nat
    \<Rightarrow> thrown + (string list \<times> jsval list \<times> nat)"
where
  "translateToSQL flt dialect startIdx =
     (case (if js_truthy flt then object_entries flt else None) of
        None \<Rightarrow> Inr \<lparr> clause = ''1=1'', vals = [] \<rparr>
      | Some es \<Rightarrow>
          if length (map fst es) = 0 then Inr \<lparr> clause = ''1=1'', vals = [] \<rparr>
          else
            (case entriesLoop es dialect [] [] startIdx of
               Inl e \<Rightarrow> Inl e
             | Inr (parts, values) \<Rightarrow>
                 Inr \<lparr> clause = (if length parts > 0 then js_join '' AND '' parts else ''1=1''),
                       vals = values \<rparr>))"
| "entriesLoop [] dialect parts values paramIdx = Inr (parts, values)"
| "entriesLoop ((key, v) # rest) dialect parts values paramIdx =
     (if isLogicalKey key then
        (case v of
           JArr filters \<Rightarrow>
             if length filters = 0 then entriesLoop rest dialect parts values paramIdx
             else
               (case subLoop (spread filters) dialect [] values paramIdx of
                  Inl e \<Rightarrow> Inl e
                | Inr (subClauses, values', paramIdx') \<Rightarrow>
                    if length subClauses > 0 then
                      (if key = ''$nor'' then
                         entriesLoop rest dialect
                           (parts @ [''NOT ('' @ js_join '' OR '' subClauses @ '')'']) values' paramIdx'
                       else
                         let joiner = (if key = ''$and'' then '' AND '' else '' OR '')
                         in entriesLoop rest dialect
                              (parts @ [''('' @ js_join joiner subClauses @ '')'']) values' paramIdx')
                    else entriesLoop rest dialect parts values' paramIdx')
         | _ \<Rightarrow> entriesLoop rest dialect parts values paramIdx)
      else if startsWith key ''$'' then Inl (unsupportedTopLevel key)
      else
        let quotedKey = quoteIdentifier key in
        if v = JNull \<or> v = JUndefined then
          entriesLoop rest dialect (parts @ [quotedKey @ '' IS NULL'']) values paramIdx
        else
          (case v of
             JObj ops \<Rightarrow>
               (case opsLoop quotedKey ops dialect parts values paramIdx of
                  Inl e \<Rightarrow> Inl e
                | Inr (parts', values', paramIdx') \<Rightarrow> entriesLoop rest dialect parts' values' paramIdx')
           | _ \<Rightarrow>
               entriesLoop rest dialect (parts @ [quotedKey @ '' = '' @ placeholder dialect paramIdx])
                 (values @ [v]) (paramIdx + 1)))"
| "subLoop [] dialect subClauses values paramIdx = Inr (subClauses, values, paramIdx)"
| "subLoop (subFilter # rest) dialect subClauses values paramIdx =
     (case translateToSQL subFilter dialect paramIdx of
        Inl e \<Rightarrow> Inl e
      | Inr sub \<Rightarrow>
          if clause sub \<noteq> [] \<and> clause sub \<noteq> ''1=1'' then
            subLoop rest dialect (subClauses @ [''('' @ clause sub @ '')'']) (values @ spread (vals sub))
              (paramIdx + length (vals sub))
          else subLoop rest dialect subClauses values paramIdx)"
  by pat_completeness auto

lemma isLogicalKey_dollar: "isLogicalKey k \<Longrightarrow> CHR ''$'' \<in> set k"
  by (auto simp: isLogicalKey_def)

termination translateToSQL
proof (relation "measure (\<lambda>x. case x of
          Inl (flt, d, i) \<Rightarrow> weight flt
        | Inr (Inl (es, d, ps, vs, i)) \<Rightarrow> entries_weight isLogicalKey es
        | Inr (Inr (fs, d, sc, vs, i)) \<Rightarrow> sum_list (map (\<lambda>f. Suc (weight f)) fs))", goal_cases)
  case 1
  then show ?case by simp
next
  case (2 flt dialect startIdx es)
  then show ?case
    using entries_weight_object_entries [of isLogicalKey flt es] isLogicalKey_dollar
    by (auto split: if_splits)
qed (auto simp: weight_spread)

section \<open>SQL filter translation: what each entry contributes\<close>

text \<open>
  Two readings of the loops, used to state that parts are joined in entry order.
  \<open>opsParts\<close> translates the operators of a bag one by one with the operator switch,
  in entry order, each from the parameter index at which the previous one stopped, and
  lists the translations. \<open>entryParts\<close> does the same for the entries of a filter: it
  runs the loop on each entry alone, from empty accumulators, and lists the parts and
  the values that this entry yields.
\<close>

fun opsParts :: "string \<Rightarrow> jsrecord \<Rightarrow> SqlDialect \<Rightarrow> nat \<Rightarrow> thrown + SqlTranslation list" where
  "opsParts quotedKey [] dialect idx = Inr []"
| "opsParts quotedKey ((op, opVal) # rest) dialect idx =
     (case translateOperatorToSQL quotedKey op opVal dialect idx of
        Inl e \<Rightarrow> Inl e
      | Inr r \<Rightarrow>
          (case opsParts quotedKey rest dialect (idx + length (vals r)) of
             Inl e \<Rightarrow> Inl e
           | Inr rs \<Rightarrow> Inr (r # rs)))"

fun entryParts :: "jsrecord \<Rightarrow> SqlDialect \<Rightarrow> nat \<Rightarrow> thrown + (string list \<times> jsval list) list" where
  "entryParts [] dialect idx = Inr []"
| "entryParts (entry # rest) dialect idx =
     (case entriesLoop [entry] dialect [] [] idx of
        Inl e \<Rightarrow> Inl e
      | Inr (ps, vs) \<Rightarrow>
          (case entryParts rest dialect (idx + length vs) of
             Inl e \<Rightarrow> Inl e
           | Inr xs \<Rightarrow> Inr ((ps, vs) # xs)))"

section \<open>Elasticsearch filter translation (filter-translator.ts)\<close>

text \<open>
  The query DSL is a JavaScript object, so the translation returns a \<open>jsval\<close>.
  \<open>obj_set\<close> is the assignment \<^verbatim>\<open>obj[key] = value\<close>: an existing property keeps its
  place, a new one goes last. \<open>translateFieldOpsToElastic\<close> takes the bag as the value it
  is handed, and \<open>fieldOpsLoop\<close> is its loop with the mutable \<^verbatim>\<open>clauses\<close>,
  \<^verbatim>\<open>rangeOps\<close> and \<^verbatim>\<open>hasRange\<close>. \<open>elasticLoop\<close> is the loop of \<open>translateToElastic\<close>
  over the entries and \<open>mapElastic\<close> the \<^verbatim>\<open>filters.map\<close> of a logical key, which throws
  a TypeError when the value is no array and leaves an empty slot empty.
\<close>

fun obj_set :: "(string \<times> 'a) list \<Rightarrow> string \<Rightarrow> 'a \<Rightarrow> (string \<times> 'a) list" where
  "obj_set [] k v = [(k, v)]"
| "obj_set ((k', v') # rest) k v = (if k' = k then (k, v) # rest else (k', v') # obj_set rest k v)"

definition must_not_exists :: "string \<Rightarrow> jsval" where
  "must_not_exists field =
     JObj [(''bool'', JObj [(''must_not'', JObj [(''exists'', JObj [(''field'', JStr field)])])])]"

function (sequential)
  translateFieldOpsToElastic :: "string \<Rightarrow> jsval \<Rightarrow> thrown + jsval list"
  and fieldOpsLoop :: "string \<Rightarrow> jsrecord \<Rightarrow> jsval list \<Rightarrow> jsrecord \<Rightarrow> bool
    \<Rightarrow> thrown + (jsval list \<times> jsrecord \<times> bool)"
where
  "translateFieldOpsToElastic field ops =
     (case object_entries ops of
        None \<Rightarrow> Inl TypeError
      | Some es \<Rightarrow>
          (case fieldOpsLoop field es [] [] False of
             Inl e \<Rightarrow> Inl e
           | Inr (clauses, rangeOps, hasRange) \<Rightarrow>
               if hasRange then Inr (clauses @ [JObj [(''range'', JObj [(field, JObj rangeOps)])]])
               else Inr clauses))"
| "fieldOpsLoop field [] clauses rangeOps hasRange = Inr (clauses, rangeOps, hasRange)"
| "fieldOpsLoop field ((op, v) # rest) clauses rangeOps hasRange =
     (if op = ''$eq'' then
        (if v = JNull then fieldOpsLoop field rest (clauses @ [must_not_exists field]) rangeOps hasRange
         else fieldOpsLoop field rest (clauses @ [JObj [(''term'', JObj [(field, v)])]]) rangeOps hasRange)
      else if op = ''$ne'' then
        (if v = JNull then
           fieldOpsLoop field rest (clauses @ [JObj [(''exists'', JObj [(''field'', JStr field)])]])
             rangeOps hasRange
         else
           fieldOpsLoop field rest
             (clauses @ [JObj [(''bool'', JObj [(''must_not'', JObj [(''term'', JObj [(field, v)])])])]])
             rangeOps hasRange)
      else if op = ''$gt'' then fieldOpsLoop field rest clauses (obj_set rangeOps ''gt'' v) True
      else if op = ''$gte'' then fieldOpsLoop field rest clauses (obj_set rangeOps ''gte'' v) True
      else if op = ''$lt'' then fieldOpsLoop field rest clauses (obj_set rangeOps ''lt'' v) True
      else if op = ''$lte'' then fieldOpsLoop field rest clauses (obj_set rangeOps ''lte'' v) True
      else if op = ''$in'' then
        fieldOpsLoop field rest (clauses @ [JObj [(''terms'', JObj [(field, v)])]]) rangeOps hasRange
      else if op = ''$nin'' then
        fieldOpsLoop field rest
          (clauses @ [JObj [(''bool'', JObj [(''must_not'', JObj [(''terms'', JObj [(field, v)])])])]])
          rangeOps hasRange
      else if op = ''$exists'' then
        (if js_truthy v then
           fieldOpsLoop field rest (clauses @ [JObj [(''exists'', JObj [(''field'', JStr field)])]])
             rangeOps hasRange
         else fieldOpsLoop field rest (clauses @ [must_not_exists field]) rangeOps hasRange)
      else if op = ''$regex'' then
        (let pattern = (case v of JRegExp src \<Rightarrow> src | _ \<Rightarrow> js_String v)
         in fieldOpsLoop field rest (clauses @ [JObj [(''regexp'', JObj [(field, JStr pattern)])]])
              rangeOps hasRange)
      else if op = ''$options'' then fieldOpsLoop field rest clauses rangeOps hasRange
      else if op = ''$not'' then
        (case translateFieldOpsToElastic field v of
           Inl e \<Rightarrow> Inl e
         | Inr subClauses \<Rightarrow>
             fieldOpsLoop field rest
               (clauses @ [JObj [(''bool'', JObj [(''must_not'', JArr subClauses)])]]) rangeOps hasRange)
      else if op = ''$size'' then
        fieldOpsLoop field rest
          (clauses @ [JObj [(''script'', JObj [(''script'', JObj
             [(''source'', JStr (''doc['' @ apos @ field @ apos @ ''].size() == params.size'')),
              (''params'', JObj [(''size'', v)])])])]])
          rangeOps hasRange
      else Inl (unknownFilterOperator op Elastic))"
  by pat_completeness auto

termination
proof (relation "measure (\<lambda>x. case x of
          Inl (field, ops) \<Rightarrow> weight ops
        | Inr (field, es, cl, ro, hr) \<Rightarrow> entries_weight (\<lambda>k. k = ''$not'') es)", goal_cases)
  case (2 field ops es)
  then show ?case
    using entries_weight_object_entries [of "\<lambda>k. k = ''$not''" ops es] by simp
qed auto

definition match_all :: jsval where
  "match_all = JObj [(''match_all'', JObj [])]"

definition unsupportedTopLevelElastic :: "string \<Rightarrow> thrown" where
  \<open>unsupportedTopLevelElastic key = Thrown (StrictDBError
     \<lparr> opt_code = UNKNOWN_OPERATOR,
       opt_message = ''Top-level operator "'' @ key @ ''" is not supported in filter.'',
       opt_fix = ''Supported top-level operators: $and, $or, $nor. Field operators must be nested: { fieldName: { '' @ key @ '': value } }.'',
       opt_backend = Elastic, opt_collection = None, opt_operation = None, opt_retryable = None \<rparr>)\<close>

function (sequential)
  translateToElastic :: "jsval \<Rightarrow> thrown + jsval"
  and elasticLoop :: "jsrecord \<Rightarrow> jsval list \<Rightarrow> thrown + jsval list"
  and mapElastic :: "jsval list \<Rightarrow> thrown + jsval list"
where
  "translateToElastic flt =
     (case (if js_truthy flt then object_entries flt else None) of
        None \<Rightarrow> Inr match_all
      | Some es \<Rightarrow>
          if length (map fst es) = 0 then Inr match_all
          else
            (case elasticLoop es [] of
               Inl e \<Rightarrow> Inl e
             | Inr must \<Rightarrow>
                 if length must = 0 then Inr match_all
                 else if length must = 1 then Inr (must ! 0)
                 else Inr (JObj [(''bool'', JObj [(''must'', JArr must)])])))"
| "elasticLoop [] must = Inr must"
| "elasticLoop ((key, v) # rest) must =
     (if key = ''$and'' then
        (case v of
           JArr filters \<Rightarrow>
             (case mapElastic filters of
                Inl e \<Rightarrow> Inl e
              | Inr clauses \<Rightarrow>
                  elasticLoop rest (must @ [JObj [(''bool'', JObj [(''must'', JArr clauses)])]]))
         | _ \<Rightarrow> Inl TypeError)
      else if key = ''$or'' then
        (case v of
           JArr filters \<Rightarrow>
             (case mapElastic filters of
                Inl e \<Rightarrow> Inl e
              | Inr clauses \<Rightarrow>
                  elasticLoop rest (must @ [JObj [(''bool'',
                    JObj [(''should'', JArr clauses), (''minimum_should_match'', JNum 1)])]]))
         | _ \<Rightarrow> Inl TypeError)
      else if key = ''$nor'' then
        (case v of
           JArr filters \<Rightarrow>
             (case mapElastic filters of
                Inl e \<Rightarrow> Inl e
              | Inr clauses \<Rightarrow>
                  elasticLoop rest (must @ [JObj [(''bool'', JObj [(''must_not'', JArr clauses)])]]))
         | _ \<Rightarrow> Inl TypeError)
      else if startsWith key ''$'' then Inl (unsupportedTopLevelElastic key)
      else if v = JNull \<or> v = JUndefined then elasticLoop rest (must @ [must_not_exists key])
      else
        (case v of
           JObj ops \<Rightarrow>
             (case translateFieldOpsToElastic key v of
                Inl e \<Rightarrow> Inl e
              | Inr fieldClauses \<Rightarrow> elasticLoop rest (must @ fieldClauses))
         | _ \<Rightarrow> elasticLoop rest (must @ [JObj [(''term'', JObj [(key, v)])]])))"
| "mapElastic [] = Inr []"
| "mapElastic (f # fs) =
     (if f = JHole then
        (case mapElastic fs of Inl e \<Rightarrow> Inl e | Inr cs \<Rightarrow> Inr (JHole # cs))
      else
        (case translateToElastic f of
           Inl e \<Rightarrow> Inl e
         | Inr c \<Rightarrow> (case mapElastic fs of Inl e \<Rightarrow> Inl e | Inr cs \<Rightarrow> Inr (c # cs))))"
  by pat_completeness auto

termination
proof (relation "measure (\<lambda>x. case x of
          Inl flt \<Rightarrow> weight flt
        | Inr (Inl (es, must)) \<Rightarrow> entries_weight isLogicalKey es
        | Inr (Inr fs) \<Rightarrow> sum_list (map (\<lambda>f. Suc (weight f)) fs))", goal_cases)
  case (2 flt es)
  then show ?case
    using entries_weight_object_entries [of isLogicalKey flt es] isLogicalKey_dollar
    by (auto split: if_splits)
qed (auto simp: isLogicalKey_def)

section \<open>Elasticsearch filter translation: the regex option modifier\<close>

text \<open>An operator bag without its \<^verbatim>\<open>$options\<close> entries.\<close>

definition withoutOptions :: "jsrecord \<Rightarrow> jsrecord" where
  "withoutOptions ops = filter (\<lambda>kv. fst kv \<noteq> ''$options'') ops"

section \<open>SQL update translation (filter-translator.ts)\<close>

text \<open>The update operators object; an absent operator is \<open>None\<close>. A present operator
  object is truthy even when it has no keys.\<close>

record UpdateOperators =
  u_set :: "jsrecord option"
  u_inc :: "jsrecord option"
  u_unset :: "jsrecord option"
  u_push :: "jsrecord option"
  u_pull :: "jsrecord option"

record SqlUpdateTranslation =
  setClauses :: string
  uvals :: "jsval list"

fun setLoop :: "jsrecord \<Rightarrow> SqlDialect \<Rightarrow> string list \<Rightarrow> jsval list \<Rightarrow> nat
    \<Rightarrow> string list \<times> jsval list \<times> nat" where
  "setLoop [] dialect clauses values paramIdx = (clauses, values, paramIdx)"
| "setLoop ((field, v) # rest) dialect clauses values paramIdx =
     setLoop rest dialect
       (clauses @ [quoteIdentifier field @ '' = '' @ placeholder dialect paramIdx])
       (values @ [v]) (paramIdx + 1)"

fun incLoop :: "jsrecord \<Rightarrow> SqlDialect \<Rightarrow> string list \<Rightarrow> jsval list \<Rightarrow> nat
    \<Rightarrow> string list \<times> jsval list \<times> nat" where
  "incLoop [] dialect clauses values paramIdx = (clauses, values, paramIdx)"
| "incLoop ((field, amount) # rest) dialect clauses values paramIdx =
     incLoop rest dialect
       (clauses @ [quoteIdentifier field @ '' = '' @ quoteIdentifier field @ '' + '' @
                   placeholder dialect paramIdx])
       (values @ [amount]) (paramIdx + 1)"

fun unsetLoop :: "string list \<Rightarrow> string list \<Rightarrow> string list" where
  "unsetLoop [] clauses = clauses"
| "unsetLoop (field # rest) clauses = unsetLoop rest (clauses @ [quoteIdentifier field @ '' = NULL''])"

definition noSetClauses :: thrown where
  "noSetClauses = Thrown (StrictDBError
     \<lparr> opt_code = QUERY_ERROR,
       opt_message = ''Update operation has no SET clauses.'',
       opt_fix = ''Provide at least one update operator: $set, $inc, or $unset.'',
       opt_backend = Sql, opt_collection = None, opt_operation = None, opt_retryable = None \<rparr>)"

definition translateUpdateToSQL :: "UpdateOperators \<Rightarrow> SqlDialect \<Rightarrow> nat \<Rightarrow> thrown + SqlUpdateTranslation" where
  "translateUpdateToSQL update dialect startIdx =
     (let (clauses1, values1, paramIdx1) =
            (case u_set update of
               None \<Rightarrow> ([], [], startIdx)
             | Some s \<Rightarrow> setLoop s dialect [] [] startIdx);
          (clauses2, values2, paramIdx2) =
            (case u_inc update of
               None \<Rightarrow> (clauses1, values1, paramIdx1)
             | Some s \<Rightarrow> incLoop s dialect clauses1 values1 paramIdx1);
          clauses3 =
            (case u_unset update of
               None \<Rightarrow> clauses2
             | Some s \<Rightarrow> unsetLoop (map fst s) clauses2)
      in if length clauses3 = 0 then Inl noSetClauses
         else Inr \<lparr> setClauses = js_join '', '' clauses3, uvals = values2 \<rparr>)"

section \<open>SQL statement builder (filter-translator.ts)\<close>

text \<open>Limit and skip are integers; \<^verbatim>\<open>Number(n)\<close> in a template prints them in
  decimal. The filter is passed on to \<open>translateToSQL\<close> as it is.\<close>

record FullSqlQuery =
  q_sql :: string
  q_values :: "jsval list"

record SelectOptions =
  so_sort :: "jsrecord option"
  so_limit :: "int option"
  so_skip :: "int option"
  so_projection :: "jsrecord option"
  so_dialect :: "SqlDialect option"

definition translateSortToSQL :: "jsrecord \<Rightarrow> string" where
  "translateSortToSQL sortSpec =
     (let parts = map (\<lambda>(field, dir).
            let direction = (if dir = JNum (- 1) \<or> dir = JStr ''desc'' then ''DESC'' else ''ASC'')
            in quoteIdentifier field @ '' '' @ direction) sortSpec
      in if length parts > 0 then js_join '', '' parts else [])"

definition translateProjectionToSQL :: "jsrecord \<Rightarrow> string" where
  "translateProjectionToSQL projection =
     (let included = filter (\<lambda>(k, v). v = JNum 1) projection;
          excluded = filter (\<lambda>(k, v). v = JNum 0) projection
      in if length included > 0 then js_join '', '' (map (\<lambda>(field, v). quoteIdentifier field) included)
         else if length excluded > 0 then ''*''
         else ''*'')"

definition buildMssqlSelectSQL :: "string \<Rightarrow> jsval \<Rightarrow> SelectOptions \<Rightarrow> thrown + FullSqlQuery" where
  "buildMssqlSelectSQL table flt options =
     (let columns = (case so_projection options of
                       Some projection \<Rightarrow> translateProjectionToSQL projection
                     | None \<Rightarrow> ''*'')
      in case translateToSQL flt Mssql 1 of
           Inl e \<Rightarrow> Inl e
         | Inr where' \<Rightarrow>
             let hasSkip = (case so_skip options of None \<Rightarrow> False | Some skip \<Rightarrow> skip > 0);
                 hasLimit = (so_limit options \<noteq> None)
             in if hasSkip then
                  (let sql0 = ''SELECT '' @ columns @ '' FROM '' @ quoteIdentifier table;
                       sql1 = (if clause where' \<noteq> ''1=1'' then sql0 @ '' WHERE '' @ clause where' else sql0);
                       sql2 = (case so_sort options of
                                 Some sortSpec \<Rightarrow>
                                   (let orderBy = translateSortToSQL sortSpec
                                    in if orderBy \<noteq> [] then sql1 @ '' ORDER BY '' @ orderBy else sql1)
                               | None \<Rightarrow> sql1 @ '' ORDER BY (SELECT NULL)'');
                       sql3 = sql2 @ '' OFFSET '' @ show_int (the (so_skip options)) @ '' ROWS'';
                       sql4 = (if hasLimit
                               then sql3 @ '' FETCH NEXT '' @ show_int (the (so_limit options)) @ '' ROWS ONLY''
                               else sql3)
                   in Inr \<lparr> q_sql = sql4, q_values = vals where' \<rparr>)
                else if hasLimit then
                  (let sql0 = ''SELECT TOP('' @ show_int (the (so_limit options)) @ '') '' @ columns @
                              '' FROM '' @ quoteIdentifier table;
                       sql1 = (if clause where' \<noteq> ''1=1'' then sql0 @ '' WHERE '' @ clause where' else sql0);
                       sql2 = (case so_sort options of
                                 Some sortSpec \<Rightarrow>
                                   (let orderBy = translateSortToSQL sortSpec
                                    in if orderBy \<noteq> [] then sql1 @ '' ORDER BY '' @ orderBy else sql1)
                               | None \<Rightarrow> sql1)
                   in Inr \<lparr> q_sql = sql2, q_values = vals where' \<rparr>)
                else
                  (let sql0 = ''SELECT '' @ columns @ '' FROM '' @ quoteIdentifier table;
                       sql1 = (if clause where' \<noteq> ''1=1'' then sql0 @ '' WHERE '' @ clause where' else sql0);
                       sql2 = (case so_sort options of
                                 Some sortSpec \<Rightarrow>
                                   (let orderBy = translateSortToSQL sortSpec
                                    in if orderBy \<noteq> [] then sql1 @ '' ORDER BY '' @ orderBy else sql1)
                               | None \<Rightarrow> sql1)
                   in Inr \<lparr> q_sql = sql2, q_values = vals where' \<rparr>))"

definition buildSelectSQL :: "string \<Rightarrow> jsval \<Rightarrow> SelectOptions \<Rightarrow> thrown + FullSqlQuery" where
  "buildSelectSQL table flt options =
     (let dialect = (case so_dialect options of Some d \<Rightarrow> d | None \<Rightarrow> Pg)
      in if dialect = Mssql then buildMssqlSelectSQL table flt options
         else
           let columns = (case so_projection options of
                            Some projection \<Rightarrow> translateProjectionToSQL projection
                          | None \<Rightarrow> ''*'')
           in case translateToSQL flt dialect 1 of
                Inl e \<Rightarrow> Inl e
              | Inr where' \<Rightarrow>
                  let sql0 = ''SELECT '' @ columns @ '' FROM '' @ quoteIdentifier table;
                      sql1 = (if clause where' \<noteq> ''1=1'' then sql0 @ '' WHERE '' @ clause where' else sql0);
                      sql2 = (case so_sort options of
                                Some sortSpec \<Rightarrow>
                                  (let orderBy = translateSortToSQL sortSpec
                                   in if orderBy \<noteq> [] then sql1 @ '' ORDER BY '' @ orderBy else sql1)
                              | None \<Rightarrow> sql1);
                      sql3 = (case so_limit options of
                                Some limit \<Rightarrow> sql2 @ '' LIMIT '' @ show_int limit
                              | None \<Rightarrow> sql2);
                      sql4 = (case so_skip options of
                                Some skip \<Rightarrow> sql3 @ '' OFFSET '' @ show_int skip
                              | None \<Rightarrow> sql3)
                  in Inr \<lparr> q_sql = sql4, q_values = vals where' \<rparr>)"

section \<open>SQL statement builder: pagination for MSSQL\<close>

text \<open>
  The decision table of the specification on (skip, limit), written as the optional
  pieces of the statement; these definitions follow the table, not the code. Skip is a
  row count and counts as used when it is present and positive (the table's row
  \<^verbatim>\<open>0 / absent\<close> is the other case). \<open>table_top\<close> is the \<^verbatim>\<open>TOP(n)\<close> prefix
  (limit without skip) and \<open>table_offset_fetch\<close> the \<^verbatim>\<open>OFFSET/FETCH\<close> suffix (skip,
  with or without limit). \<open>table_order_by\<close> is the ordering: the sort keys when there
  are any; with no sort key (the sort option absent, or present without a key) it is
  \<^verbatim>\<open>ORDER BY (SELECT NULL)\<close> when skip is used, and nothing otherwise. So the table
  never puts an \<^verbatim>\<open>OFFSET\<close> into a statement without an \<^verbatim>\<open>ORDER BY\<close>.
  \<open>table_select\<close> assembles the statement.
\<close>

definition table_uses_offset :: "SelectOptions \<Rightarrow> bool" where
  "table_uses_offset options = (case so_skip options of None \<Rightarrow> False | Some skip \<Rightarrow> skip > 0)"

definition table_top :: "SelectOptions \<Rightarrow> string" where
  "table_top options =
     (case so_limit options of
        Some limit \<Rightarrow> if table_uses_offset options then [] else ''TOP('' @ show_int limit @ '') ''
      | None \<Rightarrow> [])"

definition table_offset_fetch :: "SelectOptions \<Rightarrow> string" where
  "table_offset_fetch options =
     (case so_skip options of
        None \<Rightarrow> []
      | Some skip \<Rightarrow>
          if skip > 0 then
            '' OFFSET '' @ show_int skip @ '' ROWS'' @
            (case so_limit options of
               Some limit \<Rightarrow> '' FETCH NEXT '' @ show_int limit @ '' ROWS ONLY''
             | None \<Rightarrow> [])
          else [])"

definition table_sort_keys :: "SelectOptions \<Rightarrow> jsrecord" where
  "table_sort_keys options = (case so_sort options of None \<Rightarrow> [] | Some sortSpec \<Rightarrow> sortSpec)"

definition table_order_by :: "SelectOptions \<Rightarrow> string" where
  "table_order_by options =
     (if table_sort_keys options \<noteq> [] then '' ORDER BY '' @ translateSortToSQL (table_sort_keys options)
      else if table_uses_offset options then '' ORDER BY (SELECT NULL)''
      else [])"

definition select_columns :: "SelectOptions \<Rightarrow> string" where
  "select_columns options =
     (case so_projection options of Some projection \<Rightarrow> translateProjectionToSQL projection | None \<Rightarrow> ''*'')"

definition where_part :: "SqlTranslation \<Rightarrow> string" where
  "where_part w = (if clause w \<noteq> ''1=1'' then '' WHERE '' @ clause w else [])"

definition table_select :: "string \<Rightarrow> SqlTranslation \<Rightarrow> SelectOptions \<Rightarrow> string" where
  "table_select table w options =
     ''SELECT '' @ table_top options @ select_columns options @ '' FROM '' @ quoteIdentifier table @
     where_part w @ table_order_by options @ table_offset_fetch options"

text \<open>The options of the failing call: an empty sort object, skip 20 and limit 10.\<close>

definition emptySortPage :: SelectOptions where
  "emptySortPage =
     \<lparr>so_sort = Some [], so_limit = Some 10, so_skip = Some 20, so_projection = None,
      so_dialect = Some Mssql\<rparr>"

section \<open>Backend detection (strictdb.ts)\<close>

definition detectBackend :: "string \<Rightarrow> thrown + Backend" where
  \<open>detectBackend uri =
     (if startsWith uri ''mongodb://'' \<or> startsWith uri ''mongodb+srv://'' then Inr Mongo
      else if startsWith uri ''postgresql://'' \<or> startsWith uri ''postgres://'' then Inr Sql
      else if startsWith uri ''mysql://'' then Inr Sql
      else if startsWith uri ''mssql://'' then Inr Sql
      else if startsWith uri ''file:'' \<or> startsWith uri ''sqlite:'' then Inr Sql
      else if startsWith uri ''http://'' \<or> startsWith uri ''https://'' then Inr Elastic
      else Inl (Thrown (StrictDBError
        \<lparr> opt_code = CONNECTION_FAILED,
          opt_message = ''Unsupported URI scheme in "'' @ take 20 uri @ ''..."'',
          opt_fix = ''Use mongodb://, postgresql://, mysql://, mssql://, sqlite:, or https:// for Elasticsearch.'',
          opt_backend = Mongo, opt_collection = None, opt_operation = None,
          opt_retryable = None \<rparr>)))\<close>

section \<open>Receipts and timestamps (receipts.ts, timestamps.ts)\<close>

text \<open>A receipt without its wall-clock duration; the start time of the constructor's
  argument is left out with it.\<close>

record OperationReceipt =
  r_operation :: string
  r_collection :: string
  r_success :: bool
  r_matchedCount :: int
  r_modifiedCount :: int
  r_insertedCount :: int
  r_deletedCount :: int
  r_backend :: Backend

record receipt_opts =
  ro_operation :: string
  ro_collection :: string
  ro_backend :: Backend
  ro_matchedCount :: "int option"
  ro_modifiedCount :: "int option"
  ro_insertedCount :: "int option"
  ro_deletedCount :: "int option"
  ro_success :: "bool option"

definition createReceipt :: "receipt_opts \<Rightarrow> OperationReceipt" where
  "createReceipt opts =
     \<lparr> r_operation = ro_operation opts,
       r_collection = ro_collection opts,
       r_success = (case ro_success opts of None \<Rightarrow> True | Some b \<Rightarrow> b),
       r_matchedCount = (case ro_matchedCount opts of None \<Rightarrow> 0 | Some n \<Rightarrow> n),
       r_modifiedCount = (case ro_modifiedCount opts of None \<Rightarrow> 0 | Some n \<Rightarrow> n),
       r_insertedCount = (case ro_insertedCount opts of None \<Rightarrow> 0 | Some n \<Rightarrow> n),
       r_deletedCount = (case ro_deletedCount opts of None \<Rightarrow> 0 | Some n \<Rightarrow> n),
       r_backend = ro_backend opts \<rparr>"

text \<open>Timestamp injection. The current time is the parameter \<open>now\<close>. The
  \<^verbatim>\<open>in\<close> test is modelled on own properties only.\<close>

record ResolvedTimestampConfig =
  ts_enabled :: bool
  ts_createdAt :: string
  ts_updatedAt :: string

definition has_key :: "(string \<times> 'a) list \<Rightarrow> string \<Rightarrow> bool" where
  "has_key obj k = (k \<in> set (map fst obj))"

definition injectInsertTimestamps :: "jsrecord \<Rightarrow> ResolvedTimestampConfig \<Rightarrow> string \<Rightarrow> jsrecord" where
  "injectInsertTimestamps doc config now =
     (if \<not> ts_enabled config then doc
      else
        let timestamp = JDate now;
            result0 = doc;
            result1 = (if \<not> has_key result0 (ts_createdAt config)
                       then obj_set result0 (ts_createdAt config) timestamp else result0);
            result2 = (if \<not> has_key result1 (ts_updatedAt config)
                       then obj_set result1 (ts_updatedAt config) timestamp else result1)
        in result2)"

definition injectUpdateTimestamps :: "UpdateOperators \<Rightarrow> ResolvedTimestampConfig \<Rightarrow> string \<Rightarrow> UpdateOperators" where
  "injectUpdateTimestamps update config now =
     (if \<not> ts_enabled config then update
      else
        let timestamp = JDate now in
        case u_set update of
          Some existing_set \<Rightarrow>
            if \<not> has_key existing_set (ts_updatedAt config)
            then update\<lparr>u_set := Some (obj_set existing_set (ts_updatedAt config) timestamp)\<rparr>
            else update
        | None \<Rightarrow> update\<lparr>u_set := Some [(ts_updatedAt config, timestamp)]\<rparr>)"

section \<open>Batch (strictdb.ts)\<close>

text \<open>The adapter is the interface of adapter.ts restricted to the six write methods
  that \<open>batch\<close> calls. Each method takes the state of the database and returns the
  receipt (or the thrown error) with the new state. Logging of the receipt is left out.\<close>

datatype BatchOperation =
    InsertOne string jsrecord
  | InsertMany string "jsrecord list"
  | UpdateOne string jsrecord UpdateOperators "bool option"
  | UpdateMany string jsrecord UpdateOperators
  | DeleteOne string jsrecord
  | DeleteMany string jsrecord

record 'd DatabaseAdapter =
  backend :: Backend
  insertOne :: "'d \<Rightarrow> string \<Rightarrow> jsrecord \<Rightarrow> (thrown + OperationReceipt) \<times> 'd"
  insertMany :: "'d \<Rightarrow> string \<Rightarrow> jsrecord list \<Rightarrow> (thrown + OperationReceipt) \<times> 'd"
  updateOne :: "'d \<Rightarrow> string \<Rightarrow> jsrecord \<Rightarrow> UpdateOperators \<Rightarrow> bool option \<Rightarrow> (thrown + OperationReceipt) \<times> 'd"
  updateMany :: "'d \<Rightarrow> string \<Rightarrow> jsrecord \<Rightarrow> UpdateOperators \<Rightarrow> (thrown + OperationReceipt) \<times> 'd"
  deleteOne :: "'d \<Rightarrow> string \<Rightarrow> jsrecord \<Rightarrow> (thrown + OperationReceipt) \<times> 'd"
  deleteMany :: "'d \<Rightarrow> string \<Rightarrow> jsrecord \<Rightarrow> (thrown + OperationReceipt) \<times> 'd"

fun batchLoop :: "'d DatabaseAdapter \<Rightarrow> ResolvedTimestampConfig \<Rightarrow> string \<Rightarrow> BatchOperation list
    \<Rightarrow> 'd \<Rightarrow> int \<Rightarrow> int \<Rightarrow> int \<Rightarrow> (thrown + (int \<times> int \<times> int)) \<times> 'd" where
  "batchLoop adapter cfg now [] db insertedCount modifiedCount deletedCount =
     (Inr (insertedCount, modifiedCount, deletedCount), db)"
| "batchLoop adapter cfg now (op # rest) db insertedCount modifiedCount deletedCount =
     (case op of
        InsertOne collection doc \<Rightarrow>
          (let doc' = injectInsertTimestamps doc cfg now in
           case insertOne adapter db collection doc' of
             (Inl e, db') \<Rightarrow> (Inl e, db')
           | (Inr receipt, db') \<Rightarrow>
               batchLoop adapter cfg now rest db'
                 (insertedCount + r_insertedCount receipt) modifiedCount deletedCount)
      | InsertMany collection docs \<Rightarrow>
          (let docs' = map (\<lambda>d. injectInsertTimestamps d cfg now) docs in
           case insertMany adapter db collection docs' of
             (Inl e, db') \<Rightarrow> (Inl e, db')
           | (Inr receipt, db') \<Rightarrow>
               batchLoop adapter cfg now rest db'
                 (insertedCount + r_insertedCount receipt) modifiedCount deletedCount)
      | UpdateOne collection flt update upsert \<Rightarrow>
          (let update' = injectUpdateTimestamps update cfg now in
           case updateOne adapter db collection flt update' upsert of
             (Inl e, db') \<Rightarrow> (Inl e, db')
           | (Inr receipt, db') \<Rightarrow>
               batchLoop adapter cfg now rest db'
                 insertedCount (modifiedCount + r_modifiedCount receipt) deletedCount)
      | UpdateMany collection flt update \<Rightarrow>
          (let update' = injectUpdateTimestamps update cfg now in
           case updateMany adapter db collection flt update' of
             (Inl e, db') \<Rightarrow> (Inl e, db')
           | (Inr receipt, db') \<Rightarrow>
               batchLoop adapter cfg now rest db'
                 insertedCount (modifiedCount + r_modifiedCount receipt) deletedCount)
      | DeleteOne collection flt \<Rightarrow>
          (case deleteOne adapter db collection flt of
             (Inl e, db') \<Rightarrow> (Inl e, db')
           | (Inr receipt, db') \<Rightarrow>
               batchLoop adapter cfg now rest db'
                 insertedCount modifiedCount (deletedCount + r_deletedCount receipt))
      | DeleteMany collection flt \<Rightarrow>
          (case deleteMany adapter db collection flt of
             (Inl e, db') \<Rightarrow> (Inl e, db')
           | (Inr receipt, db') \<Rightarrow>
               batchLoop adapter cfg now rest db'
                 insertedCount modifiedCount (deletedCount + r_deletedCount receipt)))"

definition batch :: "'d DatabaseAdapter \<Rightarrow> ResolvedTimestampConfig \<Rightarrow> string \<Rightarrow> 'd \<Rightarrow> BatchOperation list
    \<Rightarrow> (thrown + OperationReceipt) \<times> 'd" where
  "batch adapter cfg now db operations =
     (case batchLoop adapter cfg now operations db 0 0 0 of
        (Inl e, db') \<Rightarrow> (Inl e, db')
      | (Inr (insertedCount, modifiedCount, deletedCount), db') \<Rightarrow>
          (Inr (createReceipt
             \<lparr> ro_operation = ''batch'', ro_collection = ''batch'', ro_backend = backend adapter,
               ro_matchedCount = None, ro_modifiedCount = Some modifiedCount,
               ro_insertedCount = Some insertedCount, ro_deletedCount = Some deletedCount,
               ro_success = None \<rparr>), db'))"

text \<open>The per-step receipts of a batch: the adapter call that \<open>batch\<close> makes for one
  operation, and the receipts of all steps in order.\<close>

definition stepCall :: "'d DatabaseAdapter \<Rightarrow> ResolvedTimestampConfig \<Rightarrow> string \<Rightarrow> 'd \<Rightarrow> BatchOperation
    \<Rightarrow> (thrown + OperationReceipt) \<times> 'd" where
  "stepCall adapter cfg now db op =
     (case op of
        InsertOne collection doc \<Rightarrow> insertOne adapter db collection (injectInsertTimestamps doc cfg now)
      | InsertMany collection docs \<Rightarrow>
          insertMany adapter db collection (map (\<lambda>d. injectInsertTimestamps d cfg now) docs)
      | UpdateOne collection flt update upsert \<Rightarrow>
          updateOne adapter db collection flt (injectUpdateTimestamps update cfg now) upsert
      | UpdateMany collection flt update \<Rightarrow>
          updateMany adapter db collection flt (injectUpdateTimestamps update cfg now)
      | DeleteOne collection flt \<Rightarrow> deleteOne adapter db collection flt
      | DeleteMany collection flt \<Rightarrow> deleteMany adapter db collection flt)"

fun stepReceipts :: "'d DatabaseAdapter \<Rightarrow> ResolvedTimestampConfig \<Rightarrow> string \<Rightarrow> 'd \<Rightarrow> BatchOperation list
    \<Rightarrow> thrown + OperationReceipt list" where
  "stepReceipts adapter cfg now db [] = Inr []"
| "stepReceipts adapter cfg now db (op # rest) =
     (case stepCall adapter cfg now db op of
        (Inl e, db') \<Rightarrow> Inl e
      | (Inr receipt, db') \<Rightarrow>
          (case stepReceipts adapter cfg now db' rest of
             Inl e \<Rightarrow> Inl e
           | Inr receipts \<Rightarrow> Inr (receipt # receipts)))"

section \<open>The relational adapter's write methods (sql-adapter.ts)\<close>

text \<open>
  Building the statement text and the driver round trip are abstracted into \<open>execFn\<close>:
  it receives the statement to run and the database state and answers with the number
  of affected rows, or with the error that the adapter's \<^verbatim>\<open>catch\<close> rethrows. The
  receipts are built as the source builds them.
\<close>

datatype statement =
    InsertStmt string jsrecord
  | BatchInsertStmt string "jsrecord list"
  | UpdateOneStmt string jsrecord UpdateOperators
  | UpdateManyStmt string jsrecord UpdateOperators
  | DeleteOneStmt string jsrecord
  | DeleteManyStmt string jsrecord

type_synonym 'd ExecFn = "'d \<Rightarrow> statement \<Rightarrow> (thrown + int) \<times> 'd"

definition isEqualityValue :: "jsval \<Rightarrow> bool" where
  "isEqualityValue v = (case v of JArr xs \<Rightarrow> False | JObj kvs \<Rightarrow> False | JRegExp src \<Rightarrow> False | _ \<Rightarrow> True)"

fun upsertFilterLoop :: "jsrecord \<Rightarrow> jsrecord \<Rightarrow> jsrecord" where
  "upsertFilterLoop [] doc = doc"
| "upsertFilterLoop ((key, v) # rest) doc =
     (if \<not> startsWith key ''$'' \<and> isEqualityValue v then upsertFilterLoop rest (obj_set doc key v)
      else upsertFilterLoop rest doc)"

fun upsertSetLoop :: "jsrecord \<Rightarrow> jsrecord \<Rightarrow> jsrecord" where
  "upsertSetLoop [] doc = doc"
| "upsertSetLoop ((key, v) # rest) doc = upsertSetLoop rest (obj_set doc key v)"

definition performUpsert :: "'d ExecFn \<Rightarrow> 'd \<Rightarrow> string \<Rightarrow> jsrecord \<Rightarrow> UpdateOperators
    \<Rightarrow> (thrown + (int \<times> bool)) \<times> 'd" where
  "performUpsert execFn db collection flt update =
     (case execFn db (UpdateOneStmt collection flt update) of
        (Inl e, db') \<Rightarrow> (Inl e, db')
      | (Inr rowCount, db') \<Rightarrow>
          if rowCount > 0 then (Inr (rowCount, False), db')
          else
            let doc0 = upsertFilterLoop flt [];
                doc1 = (case u_set update of Some s \<Rightarrow> upsertSetLoop s doc0 | None \<Rightarrow> doc0)
            in case execFn db' (InsertStmt collection doc1) of
                 (Inl e, db'') \<Rightarrow> (Inl e, db'')
               | (Inr r, db'') \<Rightarrow> (Inr (1, True), db''))"

definition receiptOpts :: "string \<Rightarrow> string \<Rightarrow> Backend \<Rightarrow> receipt_opts" where
  "receiptOpts operation collection be =
     \<lparr> ro_operation = operation, ro_collection = collection, ro_backend = be,
       ro_matchedCount = None, ro_modifiedCount = None, ro_insertedCount = None,
       ro_deletedCount = None, ro_success = None \<rparr>"

definition sql_insertOne :: "'d ExecFn \<Rightarrow> 'd \<Rightarrow> string \<Rightarrow> jsrecord \<Rightarrow> (thrown + OperationReceipt) \<times> 'd" where
  "sql_insertOne execFn db collection doc =
     (case execFn db (InsertStmt collection doc) of
        (Inl e, db') \<Rightarrow> (Inl e, db')
      | (Inr r, db') \<Rightarrow>
          (Inr (createReceipt ((receiptOpts ''insertOne'' collection Sql)\<lparr>ro_insertedCount := Some 1\<rparr>)), db'))"

definition sql_insertMany :: "'d ExecFn \<Rightarrow> 'd \<Rightarrow> string \<Rightarrow> jsrecord list \<Rightarrow> (thrown + OperationReceipt) \<times> 'd" where
  "sql_insertMany execFn db collection docs =
     (case (if length docs = 0 then (Inr 0, db) else execFn db (BatchInsertStmt collection docs)) of
        (Inl e, db') \<Rightarrow> (Inl e, db')
      | (Inr r, db') \<Rightarrow>
          (Inr (createReceipt ((receiptOpts ''insertMany'' collection Sql)
             \<lparr>ro_insertedCount := Some (int (length docs))\<rparr>)), db'))"

definition sql_updateOne :: "'d ExecFn \<Rightarrow> 'd \<Rightarrow> string \<Rightarrow> jsrecord \<Rightarrow> UpdateOperators \<Rightarrow> bool option
    \<Rightarrow> (thrown + OperationReceipt) \<times> 'd" where
  "sql_updateOne execFn db collection flt update upsert =
     (if upsert = Some True then
        (case performUpsert execFn db collection flt update of
           (Inl e, db') \<Rightarrow> (Inl e, db')
         | (Inr (rowCount, inserted), db') \<Rightarrow>
             (Inr (createReceipt ((receiptOpts ''updateOne'' collection Sql)
                \<lparr>ro_matchedCount := Some (if inserted then 0 else rowCount),
                  ro_modifiedCount := Some (if inserted then 0 else rowCount),
                  ro_insertedCount := Some (if inserted then 1 else 0)\<rparr>)), db'))
      else
        (case execFn db (UpdateOneStmt collection flt update) of
           (Inl e, db') \<Rightarrow> (Inl e, db')
         | (Inr rowCount, db') \<Rightarrow>
             (Inr (createReceipt ((receiptOpts ''updateOne'' collection Sql)
                \<lparr>ro_matchedCount := Some rowCount, ro_modifiedCount := Some rowCount\<rparr>)), db')))"

definition sql_updateMany :: "'d ExecFn \<Rightarrow> 'd \<Rightarrow> string \<Rightarrow> jsrecord \<Rightarrow> UpdateOperators
    \<Rightarrow> (thrown + OperationReceipt) \<times> 'd" where
  "sql_updateMany execFn db collection flt update =
     (case execFn db (UpdateManyStmt collection flt update) of
        (Inl e, db') \<Rightarrow> (Inl e, db')
      | (Inr rowCount, db') \<Rightarrow>
          (Inr (createReceipt ((receiptOpts ''updateMany'' collection Sql)
             \<lparr>ro_matchedCount := Some rowCount, ro_modifiedCount := Some rowCount\<rparr>)), db'))"

definition sql_deleteOne :: "'d ExecFn \<Rightarrow> 'd \<Rightarrow> string \<Rightarrow> jsrecord \<Rightarrow> (thrown + OperationReceipt) \<times> 'd" where
  "sql_deleteOne execFn db collection flt =
     (case execFn db (DeleteOneStmt collection flt) of
        (Inl e, db') \<Rightarrow> (Inl e, db')
      | (Inr rowCount, db') \<Rightarrow>
          (Inr (createReceipt ((receiptOpts ''deleteOne'' collection Sql)
             \<lparr>ro_deletedCount := Some rowCount\<rparr>)), db'))"

definition sql_deleteMany :: "'d ExecFn \<Rightarrow> 'd \<Rightarrow> string \<Rightarrow> jsrecord \<Rightarrow> (thrown + OperationReceipt) \<times> 'd" where
  "sql_deleteMany execFn db collection flt =
     (case execFn db (DeleteManyStmt collection flt) of
        (Inl e, db') \<Rightarrow> (Inl e, db')
      | (Inr rowCount, db') \<Rightarrow>
          (Inr (createReceipt ((receiptOpts ''deleteMany'' collection Sql)
             \<lparr>ro_deletedCount := Some rowCount\<rparr>)), db'))"

definition SqlAdapter :: "'d ExecFn \<Rightarrow> 'd DatabaseAdapter" where
  "SqlAdapter execFn =
     \<lparr> backend = Sql,
       insertOne = sql_insertOne execFn,
       insertMany = sql_insertMany execFn,
       updateOne = sql_updateOne execFn,
       updateMany = sql_updateMany execFn,
       deleteOne = sql_deleteOne execFn,
       deleteMany = sql_deleteMany execFn \<rparr>"

section \<open>Batch: receipt accounting\<close>

text \<open>A driver double whose state is the list of affected-row counts that the next
  statements will report, and a batch of one \<open>updateOne\<close> step with the upsert flag.\<close>

definition scriptedExec :: "int list ExecFn" where
  "scriptedExec db stmt = (case db of [] \<Rightarrow> (Inr 0, []) | n # rest \<Rightarrow> (Inr n, rest))"

definition noTimestamps :: ResolvedTimestampConfig where
  "noTimestamps = \<lparr> ts_enabled = False, ts_createdAt = ''created_at'', ts_updatedAt = ''updated_at'' \<rparr>"

definition upsertStep :: BatchOperation where
  "upsertStep = UpdateOne ''users'' [(''email'', JStr ''a@b.c'')]
     \<lparr> u_set = Some [(''name'', JStr ''Ann'')], u_inc = None, u_unset = None, u_push = None, u_pull = None \<rparr>
     (Some True)"

text \<open>The three kinds of steps, and the sum, over the steps of one kind, of a count of
  their receipts.\<close>

definition isInsertStep :: "BatchOperation \<Rightarrow> bool" where
  "isInsertStep op = (case op of InsertOne c d \<Rightarrow> True | InsertMany c ds \<Rightarrow> True | _ \<Rightarrow> False)"

definition isUpdateStep :: "BatchOperation \<Rightarrow> bool" where
  "isUpdateStep op = (case op of UpdateOne c f u b \<Rightarrow> True | UpdateMany c f u \<Rightarrow> True | _ \<Rightarrow> False)"

definition isDeleteStep :: "BatchOperation \<Rightarrow> bool" where
  "isDeleteStep op = (case op of DeleteOne c f \<Rightarrow> True | DeleteMany c f \<Rightarrow> True | _ \<Rightarrow> False)"

fun kindSum :: "(BatchOperation \<Rightarrow> bool) \<Rightarrow> (OperationReceipt \<Rightarrow> int) \<Rightarrow> BatchOperation list
    \<Rightarrow> OperationReceipt list \<Rightarrow> int" where
  "kindSum P count (op # ops) (r # rs) = (if P op then count r else 0) + kindSum P count ops rs"
| "kindSum P count ops rs = 0"

section \<open>Custom sanitize rules (sanitize.ts)\<close>














section \<open>Custom sanitize rules: freshness and frame\<close>





section \<open>Placeholder occurrences in a clause\<close>

text \<open>
  The placeholders of a clause are read off its text by a scanner that knows the lexical
  structure the translator emits. A double quote opens or closes a quoted identifier
  (a doubled quote inside an identifier closes and reopens it), and nothing inside an
  identifier counts. Outside identifiers a placeholder is \<^verbatim>\<open>$\<close> followed by
  decimal digits for PostgreSQL, \<^verbatim>\<open>@p\<close> followed by decimal digits for MSSQL, and a
  single \<^verbatim>\<open>?\<close> for MySQL and SQLite. \<open>placeholder_numbers\<close> lists the numbers of the
  placeholders in the order they occur; an unnumbered placeholder is listed as 0.
\<close>

datatype scan_mode = Outside | InIdentifier | AfterAt | InNumber

definition digit_of :: "char \<Rightarrow> nat option" where
  "digit_of c = map_of
     [(CHR ''0'', 0), (CHR ''1'', 1), (CHR ''2'', 2), (CHR ''3'', 3), (CHR ''4'', 4),
      (CHR ''5'', 5), (CHR ''6'', 6), (CHR ''7'', 7), (CHR ''8'', 8), (CHR ''9'', 9)] c"

definition scan_outside :: "SqlDialect \<Rightarrow> nat list \<Rightarrow> char \<Rightarrow> scan_mode \<times> nat list" where
  \<open>scan_outside d out c =
     (if c = CHR ''"'' then (InIdentifier, out)
      else case d of
        Pg \<Rightarrow> if c = CHR ''$'' then (InNumber, out @ [0]) else (Outside, out)
      | Mssql \<Rightarrow> if c = CHR ''@'' then (AfterAt, out) else (Outside, out)
      | Mysql2 \<Rightarrow> if c = CHR ''?'' then (Outside, out @ [0]) else (Outside, out)
      | Sqlite \<Rightarrow> if c = CHR ''?'' then (Outside, out @ [0]) else (Outside, out))\<close>

fun scan_step :: "SqlDialect \<Rightarrow> scan_mode \<times> nat list \<Rightarrow> char \<Rightarrow> scan_mode \<times> nat list" where
  \<open>scan_step d (InIdentifier, out) c = (if c = CHR ''"'' then (Outside, out) else (InIdentifier, out))\<close>
| "scan_step d (InNumber, out) c =
     (case digit_of c of
        Some k \<Rightarrow> (InNumber, butlast out @ [10 * last out + k])
      | None \<Rightarrow> scan_outside d out c)"
| "scan_step d (AfterAt, out) c =
     (if c = CHR ''p'' then (InNumber, out @ [0]) else scan_outside d out c)"
| "scan_step d (Outside, out) c = scan_outside d out c"

definition placeholder_numbers :: "SqlDialect \<Rightarrow> string \<Rightarrow> nat list" where
  "placeholder_numbers d s = snd (foldl (scan_step d) (Outside, []) s)"

section \<open>SQL filter translation: values match placeholders\<close>

text \<open>
  Proof vocabulary. \<open>nums d i n\<close> are the numbers that \<open>n\<close> consecutive placeholders
  carry from index \<open>i\<close> on. A text \<open>emits\<close> a list of numbers when scanning it from
  outside any identifier appends exactly that list; it is \<open>neutral\<close> when it appends
  nothing and ends outside, and it \<open>resets\<close> when it also ends a number that the text
  before it left open.
\<close>

definition numbered :: "SqlDialect \<Rightarrow> bool" where
  "numbered d = (d = Pg \<or> d = Mssql)"

definition nums :: "SqlDialect \<Rightarrow> nat \<Rightarrow> nat \<Rightarrow> nat list" where
  "nums d i n = (if numbered d then [i..<i + n] else replicate n 0)"

definition emits :: "SqlDialect \<Rightarrow> string \<Rightarrow> nat list \<Rightarrow> bool" where
  "emits d s ns = (\<forall>out. \<exists>m. (m = Outside \<or> m = InNumber) \<and>
      foldl (scan_step d) (Outside, out) s = (m, out @ ns))"

definition neutral :: "SqlDialect \<Rightarrow> string \<Rightarrow> bool" where
  "neutral d s = (\<forall>out. foldl (scan_step d) (Outside, out) s = (Outside, out))"

definition resets :: "SqlDialect \<Rightarrow> string \<Rightarrow> bool" where
  "resets d s = (\<forall>m out. m = Outside \<or> m = InNumber \<longrightarrow>
      foldl (scan_step d) (m, out) s = (Outside, out))"

definition plain :: "char \<Rightarrow> bool" where
  \<open>plain c = (c \<noteq> CHR ''"'' \<and> c \<noteq> CHR ''$'' \<and> c \<noteq> CHR ''@'' \<and> c \<noteq> CHR ''?'')\<close>

definition good :: "SqlDialect \<Rightarrow> nat \<Rightarrow> SqlTranslation \<Rightarrow> bool" where
  "good d i r = emits d (clause r) (nums d i (length (vals r)))"

definition quoted :: "string \<Rightarrow> bool" where
  "quoted q = (\<forall>d. neutral d q)"

text \<open>A value is \<open>dense\<close> when no array in it, at any depth, has an empty slot.\<close>

fun dense :: "jsval \<Rightarrow> bool" where
  "dense JHole = False"
| "dense (JArr xs) = (\<forall>x \<in> set xs. dense x)"
| "dense (JObj kvs) = (\<forall>kv \<in> set kvs. dense (snd kv))"
| "dense v = True"

chapter \<open>Part II: the properties\<close>

section \<open>Guardrails: the decision table\<close>

text \<open>
  Claim C3. With guardrails disabled \<open>checkGuardrails\<close> never blocks and emits nothing.
  With guardrails enabled it throws, with code \<open>GUARDRAIL_BLOCKED\<close> and after publishing
  one guardrail-blocked event, exactly for the combinations of the decision table:
  deleteMany on a zero-key filter without confirm \<open>DELETE_ALL\<close>, updateMany on a zero-key
  filter without confirm \<open>UPDATE_ALL\<close>, deleteOne on a zero-key filter, queryMany without
  a limit. Every other combination returns normally without an event.
\<close>

theorem checkGuardrails_decision_table:
  "checkGuardrails False operation collection flt os = ([], Inr ()) \<and>
   (if spec_blocks operation flt os
    then (\<exists>e reason. checkGuardrails True operation collection flt os =
            ([GuardrailBlocked collection operation reason], Inl (Thrown e)) \<and>
            err_code e = GUARDRAIL_BLOCKED)
    else checkGuardrails True operation collection flt os = ([], Inr ()))"
  by (auto simp: checkGuardrails_def spec_blocks_def isEmptyFilter_def emitAndThrow_def
      StrictDBError_def Let_def)

theorem checkGuardrails_decision_table_witness:
  "checkGuardrails False ''deleteMany'' ''users'' [] None = ([], Inr ()) \<and>
   (\<exists>e reason. checkGuardrails True ''deleteMany'' ''users'' [] None =
      ([GuardrailBlocked ''users'' ''deleteMany'' reason], Inl (Thrown e)) \<and>
      err_code e = GUARDRAIL_BLOCKED) \<and>
   checkGuardrails True ''deleteMany'' ''users'' [] (Some \<lparr>gr_limit = None, gr_confirm = Some ''DELETE_ALL''\<rparr>)
     = ([], Inr ())"
  using checkGuardrails_decision_table [of "''deleteMany''" "''users''" "[]" None]
    checkGuardrails_decision_table [of "''deleteMany''" "''users''" "[]"
      "Some \<lparr>gr_limit = None, gr_confirm = Some ''DELETE_ALL''\<rparr>"]
  by (simp add: spec_blocks_def options_confirm_def)

section \<open>SQL filter translation: conjunction in entry order\<close>

text \<open>
  The loops thread their accumulators: what a loop appends to \<^verbatim>\<open>parts\<close> and
  \<^verbatim>\<open>values\<close> does not depend on what they held before, and the parameter index
  advances by the number of values pushed. So the loop over a bag appends one part for
  each operator, in entry order, and the loop over the entries appends to the parts and
  values what each entry yields on its own, in entry order.
\<close>

lemma opsLoop_opsParts:
  "opsLoop q ops d parts vs0 i =
     (case opsParts q ops d i of
        Inl e \<Rightarrow> Inl e
      | Inr rs \<Rightarrow> Inr (parts @ map clause rs, vs0 @ concat (map (\<lambda>r. spread (vals r)) rs),
                       i + length (concat (map (\<lambda>r. spread (vals r)) rs))))"
proof (induction ops arbitrary: parts vs0 i)
  case Nil
  show ?case by simp
next
  case (Cons kv rest)
  obtain op v where kv: "kv = (op, v)" by (cases kv)
  show ?case
  proof (cases "translateOperatorToSQL q op v d i")
    case (Inl e)
    with kv show ?thesis by simp
  next
    case (Inr r)
    show ?thesis
    proof (cases "opsParts q rest d (i + length (vals r))")
      case (Inl e)
      with Inr kv Cons.IH [of "parts @ [clause r]" "vs0 @ spread (vals r)" "i + length (vals r)"]
      show ?thesis by simp
    next
      case rs: (Inr rs)
      with Inr kv Cons.IH [of "parts @ [clause r]" "vs0 @ spread (vals r)" "i + length (vals r)"]
      show ?thesis by (simp add: length_spread)
    qed
  qed
qed

lemma opsParts_one_part_each: "opsParts q ops d i = Inr rs \<Longrightarrow> length rs = length ops"
proof (induction ops arbitrary: i rs)
  case Nil
  then show ?case by simp
next
  case (Cons kv rest)
  obtain op v where kv: "kv = (op, v)" by (cases kv)
  from Cons.prems kv obtain r rs' where
    "opsParts q rest d (i + length (vals r)) = Inr rs'" and "rs = r # rs'"
    by (auto split: sum.splits)
  with Cons.IH show ?case by auto
qed

lemma subLoop_accumulators:
  "subLoop fs d sc vs0 i =
     (case subLoop fs d [] [] i of
        Inl e \<Rightarrow> Inl e
      | Inr (sc', vs', j) \<Rightarrow> Inr (sc @ sc', vs0 @ vs', j))"
proof (induction fs arbitrary: sc vs0 i)
  case Nil
  show ?case by simp
next
  case (Cons f rest)
  show ?case
  proof (cases "translateToSQL f d i")
    case (Inl e)
    then show ?thesis by simp
  next
    case (Inr sub)
    show ?thesis
    proof (cases "clause sub \<noteq> [] \<and> clause sub \<noteq> ''1=1''")
      case True
      let ?p = "''('' @ clause sub @ '')''"
      let ?j = "i + length (vals sub)"
      have a: "subLoop (f # rest) d sc vs0 i = subLoop rest d (sc @ [?p]) (vs0 @ spread (vals sub)) ?j"
        using Inr True by simp
      have b: "subLoop (f # rest) d [] [] i = subLoop rest d [?p] (spread (vals sub)) ?j"
        using Inr True by simp
      show ?thesis
        unfolding a b
        by (subst Cons.IH [of "sc @ [?p]"], subst Cons.IH [of "[?p]"])
          (simp split: sum.splits prod.splits)
    next
      case False
      have a: "subLoop (f # rest) d sc vs0 i = subLoop rest d sc vs0 i"
        using Inr False by auto
      have b: "subLoop (f # rest) d [] [] i = subLoop rest d [] [] i"
        using Inr False by auto
      show ?thesis unfolding a b by (rule Cons.IH)
    qed
  qed
qed

lemma subLoop_index:
  "subLoop fs d sc vs0 i = Inr (sc', vs', j) \<Longrightarrow> j + length vs0 = i + length vs'"
proof (induction fs arbitrary: sc vs0 i)
  case Nil
  then show ?case by simp
next
  case (Cons f rest)
  from Cons.prems obtain sub where sub: "translateToSQL f d i = Inr sub"
    by (auto split: sum.splits)
  show ?case
  proof (cases "clause sub \<noteq> [] \<and> clause sub \<noteq> ''1=1''")
    case True
    with sub Cons.prems have
      "subLoop rest d (sc @ [''('' @ clause sub @ '')'']) (vs0 @ spread (vals sub))
         (i + length (vals sub)) = Inr (sc', vs', j)" by simp
    from Cons.IH [OF this] show ?thesis by (simp add: length_spread)
  next
    case False
    with sub Cons.prems have "subLoop rest d sc vs0 i = Inr (sc', vs', j)" by auto
    from Cons.IH [OF this] show ?thesis .
  qed
qed

lemma isLogicalKey_startsWith: "isLogicalKey key \<Longrightarrow> startsWith key ''$''"
  by (auto simp: isLogicalKey_def startsWith_def)

lemma entriesLoop_entry:
  "entriesLoop (entry # rest) d parts vs0 i =
     (case entriesLoop [entry] d [] [] i of
        Inl e \<Rightarrow> Inl e
      | Inr (ps, vs) \<Rightarrow> entriesLoop rest d (parts @ ps) (vs0 @ vs) (i + length vs))"
proof -
  obtain key v where entry: "entry = (key, v)" by (cases entry)
  show ?thesis
  proof (cases "isLogicalKey key")
    case True
    show ?thesis
    proof (cases "\<exists>fs. v = JArr fs \<and> length fs \<noteq> 0")
      case False
      with True entry show ?thesis by (cases v) auto
    next
      case True': True
      then obtain fs where v: "v = JArr fs" and fs: "length fs \<noteq> 0" by blast
      show ?thesis
      proof (cases "subLoop (spread fs) d [] [] i")
        case (Inl e)
        with True entry v fs subLoop_accumulators [of "spread fs" d "[]" vs0 i]
        show ?thesis by simp
      next
        case (Inr t)
        then obtain sc' vs' j where t: "subLoop (spread fs) d [] [] i = Inr (sc', vs', j)"
          by (cases t) auto
        from subLoop_index [OF t] have j: "j = i + length vs'" by simp
        from t subLoop_accumulators [of "spread fs" d "[]" vs0 i]
        have t': "subLoop (spread fs) d [] vs0 i = Inr (sc', vs0 @ vs', j)" by simp
        from True entry v fs t t' j show ?thesis by (simp add: Let_def)
      qed
    qed
  next
    case False
    show ?thesis
    proof (cases "startsWith key ''$''")
      case True
      with False entry show ?thesis by simp
    next
      case nd: False
      show ?thesis
      proof (cases "v = JNull \<or> v = JUndefined")
        case True
        with False nd entry show ?thesis by (auto simp: Let_def)
      next
        case notnull: False
        show ?thesis
        proof (cases "\<exists>ops. v = JObj ops")
          case True
          then obtain ops where ops: "v = JObj ops" by blast
          from False nd notnull entry ops
            opsLoop_opsParts [of "quoteIdentifier key" ops d parts vs0 i]
            opsLoop_opsParts [of "quoteIdentifier key" ops d "[]" "[]" i]
          show ?thesis by (simp add: Let_def split: sum.splits)
        next
          case False': False
          with False nd notnull entry show ?thesis by (cases v) (auto simp: Let_def)
        qed
      qed
    qed
  qed
qed

lemma entriesLoop_entryParts:
  "entriesLoop es d parts vs0 i =
     (case entryParts es d i of
        Inl e \<Rightarrow> Inl e
      | Inr xs \<Rightarrow> Inr (parts @ concat (map fst xs), vs0 @ concat (map snd xs)))"
proof (induction es arbitrary: parts vs0 i)
  case Nil
  show ?case by simp
next
  case (Cons entry rest)
  show ?case
    by (subst entriesLoop_entry) (simp add: Cons.IH split: sum.splits prod.splits)
qed

text \<open>
  Claim C2. Translating \<^verbatim>\<open>{age: {$gte: 18, $lt: 65}, role: 'admin'}\<close> for PostgreSQL
  returns exactly the clause \<^verbatim>\<open>"age" >= $1 AND "age" < $2 AND "role" = $3\<close> with the
  values 18, 65 and admin. In general, for every filter object, dialect and start
  index, the clause is the parts of the entries, taken entry by entry in entry order and
  joined with \<^verbatim>\<open> AND \<close> (or \<^verbatim>\<open>1=1\<close> when there is no part), and the values are the
  values of the entries in the same order; the translation throws exactly when an entry
  does. And for every field bound to an operator bag, the parts of that entry are the
  clauses of its operators, one for each operator in entry order, each numbered from
  where the previous one stopped: the operators of a bag are joined with \<^verbatim>\<open> AND \<close> like
  top-level fields.
\<close>

theorem translateToSQL_AND_in_entry_order:
  \<open>translateToSQL
     (JObj [(''age'', JObj [(''$gte'', JNum 18), (''$lt'', JNum 65)]), (''role'', JStr ''admin'')])
     Pg 1
   = Inr \<lparr> clause = ''"age" >= $1 AND "age" < $2 AND "role" = $3'',
           vals = [JNum 18, JNum 65, JStr ''admin''] \<rparr> \<and>
   translateToSQL (JObj es) d i =
      (case entryParts es d i of
         Inl e \<Rightarrow> Inl e
       | Inr xs \<Rightarrow>
           Inr \<lparr> clause = (if concat (map fst xs) = [] then ''1=1''
                           else js_join '' AND '' (concat (map fst xs))),
                 vals = concat (map snd xs) \<rparr>) \<and>
   (\<not> startsWith key ''$'' \<longrightarrow>
      entriesLoop [(key, JObj ops)] d [] [] i =
        (case opsParts (quoteIdentifier key) ops d i of
           Inl e \<Rightarrow> Inl e
         | Inr rs \<Rightarrow> Inr (map clause rs, concat (map (\<lambda>r. spread (vals r)) rs))))\<close>
proof (intro conjI impI)
  show \<open>translateToSQL
     (JObj [(''age'', JObj [(''$gte'', JNum 18), (''$lt'', JNum 65)]), (''role'', JStr ''admin'')])
     Pg 1
   = Inr \<lparr> clause = ''"age" >= $1 AND "age" < $2 AND "role" = $3'',
           vals = [JNum 18, JNum 65, JStr ''admin''] \<rparr>\<close>
    by code_simp
next
  show "translateToSQL (JObj es) d i =
      (case entryParts es d i of
         Inl e \<Rightarrow> Inl e
       | Inr xs \<Rightarrow>
           Inr \<lparr> clause = (if concat (map fst xs) = [] then ''1=1''
                           else js_join '' AND '' (concat (map fst xs))),
                 vals = concat (map snd xs) \<rparr>)"
  proof (cases es)
    case Nil
    then show ?thesis by (simp add: js_truthy_def)
  next
    case (Cons entry rest)
    then show ?thesis
      using entriesLoop_entryParts [of es d "[]" "[]" i]
      by (simp add: js_truthy_def split: sum.splits)
  qed
next
  assume nd: "\<not> startsWith key ''$''"
  then have "\<not> isLogicalKey key" using isLogicalKey_startsWith by blast
  with nd opsLoop_opsParts [of "quoteIdentifier key" ops d "[]" "[]" i]
  show "entriesLoop [(key, JObj ops)] d [] [] i =
        (case opsParts (quoteIdentifier key) ops d i of
           Inl e \<Rightarrow> Inl e
         | Inr rs \<Rightarrow> Inr (map clause rs, concat (map (\<lambda>r. spread (vals r)) rs)))"
    by (simp add: Let_def split: sum.splits)
qed

theorem translateToSQL_AND_in_entry_order_witness:
  \<open>translateToSQL
     (JObj [(''a'', JObj [(''$gt'', JNum 1), (''$ne'', JNull), (''$lte'', JNum 9)]),
            (''b'', JNull), (''c'', JStr ''x'')]) Mssql 1
   = Inr \<lparr> clause = ''"a" > @p1 AND "a" IS NOT NULL AND "a" <= @p2 AND "b" IS NULL AND "c" = @p3'',
           vals = [JNum 1, JNum 9, JStr ''x''] \<rparr> \<and>
   entriesLoop [(''a'', JObj [(''$gt'', JNum 1), (''$ne'', JNull), (''$lte'', JNum 9)])] Mssql [] [] 1
   = Inr ([''"a" > @p1'', ''"a" IS NOT NULL'', ''"a" <= @p2''], [JNum 1, JNum 9])\<close>
proof -
  let ?ops = "[(''$gt'', JNum 1), (''$ne'', JNull), (''$lte'', JNum 9)]"
  let ?es = "[(''a'', JObj ?ops), (''b'', JNull), (''c'', JStr ''x'')]"
  note general = translateToSQL_AND_in_entry_order [where es = ?es and d = Mssql and i = 1
      and key = "''a''" and ops = ?ops, THEN conjunct2]
  have parts: \<open>(case entryParts ?es Mssql 1 of
         Inl e \<Rightarrow> Inl e
       | Inr xs \<Rightarrow>
           Inr \<lparr> clause = (if concat (map fst xs) = [] then ''1=1''
                           else js_join '' AND '' (concat (map fst xs))),
                 vals = concat (map snd xs) \<rparr>)
      = Inr \<lparr> clause = ''"a" > @p1 AND "a" IS NOT NULL AND "a" <= @p2 AND "b" IS NULL AND "c" = @p3'',
              vals = [JNum 1, JNum 9, JStr ''x''] \<rparr>\<close>
    by code_simp
  have bag: \<open>(case opsParts (quoteIdentifier ''a'') ?ops Mssql 1 of
           Inl e \<Rightarrow> Inl e
         | Inr rs \<Rightarrow> Inr (map clause rs, concat (map (\<lambda>r. spread (vals r)) rs)))
      = Inr ([''"a" > @p1'', ''"a" IS NOT NULL'', ''"a" <= @p2''], [JNum 1, JNum 9])\<close>
    by code_simp
  have nd: "\<not> startsWith ''a'' ''$''" by (simp add: startsWith_def)
  from general [THEN conjunct1] parts
  have a: \<open>translateToSQL (JObj ?es) Mssql 1
      = Inr \<lparr> clause = ''"a" > @p1 AND "a" IS NOT NULL AND "a" <= @p2 AND "b" IS NULL AND "c" = @p3'',
              vals = [JNum 1, JNum 9, JStr ''x''] \<rparr>\<close>
    by (rule trans)
  from general [THEN conjunct2, THEN mp, OF nd] bag
  have b: \<open>entriesLoop [(''a'', JObj ?ops)] Mssql [] [] 1
      = Inr ([''"a" > @p1'', ''"a" IS NOT NULL'', ''"a" <= @p2''], [JNum 1, JNum 9])\<close>
    by (rule trans)
  from a b show ?thesis by (rule conjI)
qed

section \<open>SQL filter translation: the regex option modifier\<close>

text \<open>
  Claim C9, on the SQL side. The operator switch answers \<^verbatim>\<open>$options\<close> with an empty
  clause, and the loop over a top-level operator bag pushes that empty clause among the
  parts, so the joined text ends in a dangling \<^verbatim>\<open> AND \<close>. The same bag without the
  \<^verbatim>\<open>$options\<close> entry gives the clause without it: the two outputs differ. Inside
  \<^verbatim>\<open>$not\<close> the loop skips empty clauses and the modifier is elided.
\<close>

theorem translateToSQL_options_dangling_AND:
  \<open>translateToSQL (JObj [(''name'', JObj [(''$regex'', JStr ''^a''), (''$options'', JStr ''i'')])]) Pg 1
     = Inr \<lparr> clause = ''"name" ~ $1 AND '', vals = [JStr ''^a''] \<rparr> \<and>
   translateToSQL (JObj [(''name'', JObj [(''$regex'', JStr ''^a'')])]) Pg 1
     = Inr \<lparr> clause = ''"name" ~ $1'', vals = [JStr ''^a''] \<rparr> \<and>
   translateToSQL (JObj [(''name'', JObj [(''$not'',
       JObj [(''$regex'', JStr ''^a''), (''$options'', JStr ''i'')])])]) Pg 1
     = Inr \<lparr> clause = ''NOT ("name" ~ $1)'', vals = [JStr ''^a''] \<rparr>\<close>
  by code_simp

section \<open>Elasticsearch filter translation: the regex option modifier\<close>

text \<open>
  On the Elasticsearch side the modifier is elided: an operator bag translates to the
  same clauses as the bag with its \<^verbatim>\<open>$options\<close> entries removed, and the switch has a
  case for it, so it never raises \<open>UNKNOWN_OPERATOR\<close>.
\<close>

lemma fieldOpsLoop_elides_options:
  "fieldOpsLoop field ops clauses rangeOps hasRange
     = fieldOpsLoop field (withoutOptions ops) clauses rangeOps hasRange"
proof (induction ops arbitrary: clauses rangeOps hasRange)
  case Nil
  show ?case by (simp add: withoutOptions_def)
next
  case (Cons kv rest)
  obtain op v where kv: "kv = (op, v)" by (cases kv)
  show ?case
  proof (cases "op = ''$options''")
    case True
    then show ?thesis using Cons.IH kv by (simp add: withoutOptions_def)
  next
    case False
    have w: "withoutOptions ((op, v) # rest) = (op, v) # withoutOptions rest"
      using False by (simp add: withoutOptions_def)
    show ?thesis
      unfolding kv w by (simp add: Cons.IH Let_def cong: sum.case_cong)
  qed
qed

lemma translateFieldOpsToElastic_elides_options:
  "translateFieldOpsToElastic field (JObj ops) = translateFieldOpsToElastic field (JObj (withoutOptions ops))"
  using fieldOpsLoop_elides_options [of field ops "[]" "[]" False] by simp

section \<open>Elasticsearch filter translation: disjunction and unwrapping\<close>



section \<open>SQL update translation: array operators are dropped\<close>

text \<open>
  Claim C10. \<open>translateUpdateToSQL\<close> reads only \<^verbatim>\<open>$set\<close>, \<^verbatim>\<open>$inc\<close> and
  \<^verbatim>\<open>$unset\<close>: whatever \<^verbatim>\<open>$push\<close> and \<^verbatim>\<open>$pull\<close> hold, the result is the one for
  the update without them, so their mutations are absent from the emitted SQL; and an
  update that has none of \<^verbatim>\<open>$set\<close>, \<^verbatim>\<open>$inc\<close>, \<^verbatim>\<open>$unset\<close> (only \<^verbatim>\<open>$push\<close> and/or
  \<^verbatim>\<open>$pull\<close>) raises \<open>QUERY_ERROR\<close>.
\<close>

theorem translateUpdateToSQL_ignores_push_pull:
  "translateUpdateToSQL (update\<lparr>u_push := p, u_pull := q\<rparr>) dialect startIdx
     = translateUpdateToSQL update dialect startIdx \<and>
   (u_set update = None \<and> u_inc update = None \<and> u_unset update = None \<longrightarrow>
      (\<exists>e. translateUpdateToSQL update dialect startIdx = Inl (Thrown e) \<and> err_code e = QUERY_ERROR))"
  by (simp add: translateUpdateToSQL_def noSetClauses_def StrictDBError_def)

theorem translateUpdateToSQL_ignores_push_pull_witness:
  "(\<exists>e. translateUpdateToSQL
      \<lparr>u_set = None, u_inc = None, u_unset = None,
       u_push = Some [(''tags'', JStr ''new'')], u_pull = Some [(''tags'', JStr ''old'')]\<rparr> Pg 1
        = Inl (Thrown e) \<and> err_code e = QUERY_ERROR) \<and>
   translateUpdateToSQL
      \<lparr>u_set = Some [(''name'', JStr ''Tim'')], u_inc = None, u_unset = None,
       u_push = Some [(''tags'', JStr ''new'')], u_pull = Some [(''tags'', JStr ''old'')]\<rparr> Pg 1
     = Inr \<lparr> setClauses = ''\"name\" = $1'', uvals = [JStr ''Tim''] \<rparr>"
proof -
  let ?only = "\<lparr>u_set = None, u_inc = None, u_unset = None,
       u_push = Some [(''tags'', JStr ''new'')], u_pull = Some [(''tags'', JStr ''old'')]\<rparr>"
  let ?plain = "\<lparr>u_set = Some [(''name'', JStr ''Tim'')], u_inc = None, u_unset = None,
       u_push = None, u_pull = None\<rparr>"
  have a: "\<exists>e. translateUpdateToSQL ?only Pg 1 = Inl (Thrown e) \<and> err_code e = QUERY_ERROR"
    using translateUpdateToSQL_ignores_push_pull
      [where update = ?only and p = None and q = None and dialect = Pg and startIdx = 1]
    by simp
  have b: "translateUpdateToSQL ?plain Pg 1 = Inr \<lparr> setClauses = ''\"name\" = $1'', uvals = [JStr ''Tim''] \<rparr>"
    by code_simp
  have c: "translateUpdateToSQL (?plain\<lparr>u_push := Some [(''tags'', JStr ''new'')], u_pull := Some [(''tags'', JStr ''old'')]\<rparr>) Pg 1
      = translateUpdateToSQL ?plain Pg 1"
    using translateUpdateToSQL_ignores_push_pull
      [where update = ?plain and p = "Some [(''tags'', JStr ''new'')]"
         and q = "Some [(''tags'', JStr ''old'')]" and dialect = Pg and startIdx = 1]
    by blast
  from a b c show ?thesis by simp
qed

section \<open>SQL statement builder: pagination for MSSQL\<close>

text \<open>
  Claim C4. \<open>buildSelectSQL\<close> called for MSSQL with an empty sort object, skip 20 and
  limit 10 returns
  \<^verbatim>\<open>SELECT * FROM "users" OFFSET 20 ROWS FETCH NEXT 10 ROWS ONLY\<close>: skip is used, no
  sort key is given, and no \<^verbatim>\<open>ORDER BY\<close> is emitted, neither the fallback
  \<^verbatim>\<open>ORDER BY (SELECT NULL)\<close> nor any other. The decision table gives
  \<^verbatim>\<open>SELECT * FROM "users" ORDER BY (SELECT NULL) OFFSET 20 ROWS FETCH NEXT 10 ROWS ONLY\<close>
  for these options. The skip branch of the source tests whether the sort option is
  present, and the fallback sits in the else of that test; the inner test for a
  non-empty ordering then drops the \<^verbatim>\<open>ORDER BY\<close> of a sort object without keys, under
  the comment that \<^verbatim>\<open>OFFSET FETCH\<close> requires \<^verbatim>\<open>ORDER BY\<close>.
\<close>

theorem buildSelectSQL_mssql_empty_sort_drops_order_by:
  \<open>buildSelectSQL ''users'' (JObj []) emptySortPage
     = Inr \<lparr> q_sql = ''SELECT * FROM "users" OFFSET 20 ROWS FETCH NEXT 10 ROWS ONLY'', q_values = [] \<rparr> \<and>
   table_select ''users'' \<lparr> clause = ''1=1'', vals = [] \<rparr> emptySortPage
     = ''SELECT * FROM "users" ORDER BY (SELECT NULL) OFFSET 20 ROWS FETCH NEXT 10 ROWS ONLY'' \<and>
   table_uses_offset emptySortPage \<and> table_sort_keys emptySortPage = []\<close>
  by code_simp

text \<open>
  Everywhere else the code follows the table. For the MSSQL dialect, every table name,
  every filter that translates and all options other than an empty sort object combined
  with a used skip, \<open>buildSelectSQL\<close> returns the statement that the decision table
  assembles; the \<^verbatim>\<open>TOP(n)\<close> prefix and the \<^verbatim>\<open>OFFSET/FETCH\<close> suffix are never both
  present; and the scenario of the specification, with skip 20, limit 10 and the sort
  option absent, returns the stated text.
\<close>

lemma js_join_nonempty: "x \<noteq> [] \<Longrightarrow> js_join sep (x # xs) \<noteq> []"
  by (cases xs) simp_all

lemma translateSortToSQL_nonempty: "sortSpec \<noteq> [] \<Longrightarrow> translateSortToSQL sortSpec \<noteq> []"
proof (cases sortSpec)
  case Nil
  assume "sortSpec \<noteq> []"
  with Nil show ?thesis by simp
next
  case (Cons kv rest)
  obtain field dir where kv: "kv = (field, dir)" by (cases kv)
  have "quoteIdentifier field @ '' '' @ direction \<noteq> []" for direction
    by (simp add: quoteIdentifier_def)
  with Cons kv show ?thesis
    by (simp add: translateSortToSQL_def Let_def js_join_nonempty)
qed

lemma buildSelectSQL_mssql_follows_table:
  assumes "so_dialect options = Some Mssql" and "translateToSQL flt Mssql 1 = Inr w"
    and "\<not> (so_sort options = Some [] \<and> table_uses_offset options)"
  shows "buildSelectSQL table flt options
    = Inr \<lparr> q_sql = table_select table w options, q_values = vals w \<rparr>"
proof (cases "so_sort options")
  case None
  with assms(1,2) show ?thesis
    by (auto simp: buildSelectSQL_def buildMssqlSelectSQL_def table_select_def table_top_def
        select_columns_def where_part_def table_order_by_def table_sort_keys_def
        table_offset_fetch_def table_uses_offset_def Let_def split: option.splits)
next
  case (Some sortSpec)
  show ?thesis
  proof (cases "sortSpec = []")
    case True
    with Some assms show ?thesis
      by (auto simp: buildSelectSQL_def buildMssqlSelectSQL_def table_select_def table_top_def
          select_columns_def where_part_def table_order_by_def table_sort_keys_def
          table_offset_fetch_def table_uses_offset_def translateSortToSQL_def Let_def
          split: option.splits)
  next
    case False
    with Some assms(1,2) translateSortToSQL_nonempty [OF False] show ?thesis
      by (auto simp: buildSelectSQL_def buildMssqlSelectSQL_def table_select_def table_top_def
          select_columns_def where_part_def table_order_by_def table_sort_keys_def
          table_offset_fetch_def table_uses_offset_def Let_def split: option.splits)
  qed
qed

lemma table_top_offset_exclusive: "table_top options = [] \<or> table_offset_fetch options = []"
  by (auto simp: table_top_def table_offset_fetch_def table_uses_offset_def split: option.splits)

lemma buildSelectSQL_mssql_scenario:
  \<open>buildSelectSQL ''users'' (JObj [])
      \<lparr>so_sort = None, so_limit = Some 10, so_skip = Some 20, so_projection = None, so_dialect = Some Mssql\<rparr>
     = Inr \<lparr> q_sql = ''SELECT * FROM "users" ORDER BY (SELECT NULL) OFFSET 20 ROWS FETCH NEXT 10 ROWS ONLY'',
             q_values = [] \<rparr>\<close>
  by code_simp

lemma buildSelectSQL_mssql_top_example:
  \<open>buildSelectSQL ''users'' (JObj [(''age'', JNum 25)])
      \<lparr>so_sort = None, so_limit = Some 5, so_skip = None, so_projection = None, so_dialect = Some Mssql\<rparr>
     = Inr \<lparr> q_sql = ''SELECT TOP(5) * FROM "users" WHERE "age" = @p1'', q_values = [JNum 25] \<rparr>\<close>
proof -
  have w: \<open>translateToSQL (JObj [(''age'', JNum 25)]) Mssql 1 = Inr \<lparr> clause = ''"age" = @p1'', vals = [JNum 25] \<rparr>\<close>
    by code_simp
  have s5: "show_int 5 = ''5''" by code_simp
  show ?thesis
    using buildSelectSQL_mssql_follows_table [where options = "\<lparr>so_sort = None, so_limit = Some 5, so_skip = None, so_projection = None, so_dialect = Some Mssql\<rparr>"
        and flt = "JObj [(''age'', JNum 25)]" and w = "\<lparr> clause = ''\"age\" = @p1'', vals = [JNum 25] \<rparr>" and table = "''users''"] w
    by (simp add: table_select_def table_top_def select_columns_def where_part_def table_order_by_def
        table_sort_keys_def table_offset_fetch_def table_uses_offset_def quoteIdentifier_def s5)
qed

section \<open>Backend detection (strictdb.ts)\<close>

text \<open>
  Claim C6, at the error raised for an unsupported URI prefix. The error carries the code
  \<open>CONNECTION_FAILED\<close>, which the table \<open>ERROR_RETRYABLE\<close> marks retryable, but the
  construction site passes no retryable flag and the constructor defaults it to false.
\<close>

theorem detectBackend_unsupported_not_retryable:
  "\<exists>e. detectBackend ''ftp://example.org/db'' = Inl (Thrown e) \<and>
        err_code e = CONNECTION_FAILED \<and> err_retryable e = False \<and>
        ERROR_RETRYABLE (err_code e) = True"
  by (simp add: detectBackend_def startsWith_def StrictDBError_def ERROR_RETRYABLE_def)

section \<open>Batch: receipt accounting\<close>

text \<open>
  Claim C5, at an upsert that takes the insert path. The single UPDATE matches no row,
  so \<open>performUpsert\<close> inserts and the step's receipt reports one inserted and none
  modified; \<open>batch\<close> adds only the modified count of an \<open>updateOne\<close> step and returns a
  receipt with no inserted, modified or deleted document at all.
\<close>

theorem batch_drops_upsert_insert:
  "\<exists>receipt step db'.
     batch (SqlAdapter scriptedExec) noTimestamps ''2026-01-01'' [0, 1] [upsertStep] = (Inr receipt, db') \<and>
     stepReceipts (SqlAdapter scriptedExec) noTimestamps ''2026-01-01'' [0, 1] [upsertStep] = Inr [step] \<and>
     r_insertedCount step = 1 \<and> r_modifiedCount step = 0 \<and>
     r_insertedCount receipt = 0 \<and> r_modifiedCount receipt = 0 \<and> r_deletedCount receipt = 0"
  by (simp add: batch_def stepCall_def SqlAdapter_def sql_updateOne_def performUpsert_def
      scriptedExec_def upsertStep_def noTimestamps_def injectUpdateTimestamps_def createReceipt_def
      receiptOpts_def)

text \<open>What \<open>batch\<close> does add up: the inserted counts of the insert steps, the modified
  counts of the update steps and the deleted counts of the delete steps.\<close>

lemma batchLoop_counts:
  "stepReceipts adapter cfg now db ops = Inr rs \<Longrightarrow>
   \<exists>db'. batchLoop adapter cfg now ops db i m d =
     (Inr (i + kindSum isInsertStep r_insertedCount ops rs,
           m + kindSum isUpdateStep r_modifiedCount ops rs,
           d + kindSum isDeleteStep r_deletedCount ops rs), db')"
proof (induction ops arbitrary: db rs i m d)
  case Nil
  then show ?case by simp
next
  case (Cons op ops)
  from Cons.prems obtain r db1 rs' where
    call: "stepCall adapter cfg now db op = (Inr r, db1)"
    and rest: "stepReceipts adapter cfg now db1 ops = Inr rs'"
    and rs: "rs = r # rs'"
    by (auto split: prod.splits sum.splits)
  show ?case
  proof (cases op)
    case (InsertOne c doc)
    with call Cons.IH [OF rest, of "i + r_insertedCount r" m d] rs show ?thesis
      by (auto simp: stepCall_def isInsertStep_def isUpdateStep_def isDeleteStep_def Let_def)
  next
    case (InsertMany c docs)
    with call Cons.IH [OF rest, of "i + r_insertedCount r" m d] rs show ?thesis
      by (auto simp: stepCall_def isInsertStep_def isUpdateStep_def isDeleteStep_def Let_def)
  next
    case (UpdateOne c f u b)
    with call Cons.IH [OF rest, of i "m + r_modifiedCount r" d] rs show ?thesis
      by (auto simp: stepCall_def isInsertStep_def isUpdateStep_def isDeleteStep_def Let_def)
  next
    case (UpdateMany c f u)
    with call Cons.IH [OF rest, of i "m + r_modifiedCount r" d] rs show ?thesis
      by (auto simp: stepCall_def isInsertStep_def isUpdateStep_def isDeleteStep_def Let_def)
  next
    case (DeleteOne c f)
    with call Cons.IH [OF rest, of i m "d + r_deletedCount r"] rs show ?thesis
      by (auto simp: stepCall_def isInsertStep_def isUpdateStep_def isDeleteStep_def Let_def)
  next
    case (DeleteMany c f)
    with call Cons.IH [OF rest, of i m "d + r_deletedCount r"] rs show ?thesis
      by (auto simp: stepCall_def isInsertStep_def isUpdateStep_def isDeleteStep_def Let_def)
  qed
qed

lemma batch_counts_by_kind:
  assumes "stepReceipts adapter cfg now db ops = Inr rs"
  shows "\<exists>receipt db'. batch adapter cfg now db ops = (Inr receipt, db') \<and>
     r_insertedCount receipt = kindSum isInsertStep r_insertedCount ops rs \<and>
     r_modifiedCount receipt = kindSum isUpdateStep r_modifiedCount ops rs \<and>
     r_deletedCount receipt = kindSum isDeleteStep r_deletedCount ops rs"
  using batchLoop_counts [OF assms, of 0 0 0]
  by (auto simp: batch_def createReceipt_def)

section \<open>Custom sanitize rules: freshness and frame\<close>

text \<open>Every loop of \<open>applySanitizeRules\<close> writes to the result object only, so a prefix
  of the heap that lies below the result stays as it is when the transforms keep it.\<close>

lemma take_prefix_length: "take n h' = h \<Longrightarrow> n = length h \<Longrightarrow> length h \<le> length h'"
  by (metis length_take min.cobounded1 min_def nat_le_linear take_all)








section \<open>SQL filter translation: values match placeholders\<close>

text \<open>
  The scanner on the pieces that the translator emits: literal text without quotes and
  placeholder characters is neutral, a quoted identifier is neutral whatever the name,
  a placeholder emits its index, and pieces compose across a separator. The invariant
  \<open>good\<close> then follows the recursion of the translator.
\<close>

lemma scan_outside_plain: "plain c \<Longrightarrow> scan_outside d out c = (Outside, out)"
  by (cases d) (auto simp: scan_outside_def plain_def)

lemma neutral_plain: "\<forall>c \<in> set s. plain c \<Longrightarrow> neutral d s"
  unfolding neutral_def
  by (induction s) (auto simp: scan_outside_plain)

lemma resets_plain:
  assumes "plain c" "digit_of c = None" "\<forall>x \<in> set cs. plain x"
  shows "resets d (c # cs)"
proof -
  have "foldl (scan_step d) (Outside, out) cs = (Outside, out)" for out
    using neutral_plain [OF assms(3), of d] by (simp add: neutral_def)
  then show ?thesis
    using assms(1,2) by (auto simp: resets_def scan_outside_plain)
qed

lemma resets_neutral: "resets d s \<Longrightarrow> neutral d s"
  by (simp add: resets_def neutral_def)

lemma emits_Nil: "emits d [] []"
  by (simp add: emits_def)

lemma emits_Nil_iff: "emits d [] ns \<longleftrightarrow> ns = []"
  by (auto simp: emits_def)

lemma neutral_emits: "neutral d s \<Longrightarrow> emits d s []"
  by (simp add: emits_def neutral_def)

lemma neutral_append: "neutral d a \<Longrightarrow> neutral d b \<Longrightarrow> neutral d (a @ b)"
  by (simp add: neutral_def)

lemma emits_prefix: "neutral d a \<Longrightarrow> emits d b ns \<Longrightarrow> emits d (a @ b) ns"
  by (simp add: emits_def neutral_def)

lemma emits_suffix:
  assumes "emits d a ns" "resets d s"
  shows "emits d (a @ s) ns"
  unfolding emits_def
proof
  fix out
  from assms(1) obtain m where m: "m = Outside \<or> m = InNumber"
    and a: "foldl (scan_step d) (Outside, out) a = (m, out @ ns)"
    unfolding emits_def by blast
  from assms(2) m have "foldl (scan_step d) (m, out @ ns) s = (Outside, out @ ns)"
    unfolding resets_def by blast
  with a show "\<exists>m. (m = Outside \<or> m = InNumber) \<and>
      foldl (scan_step d) (Outside, out) (a @ s) = (m, out @ ns)"
    by simp
qed

lemma emits_sep:
  assumes "emits d a ns" "resets d s" "emits d b ms"
  shows "emits d (a @ s @ b) (ns @ ms)"
  unfolding emits_def
proof
  fix out
  from assms(1) obtain m where m: "m = Outside \<or> m = InNumber"
    and a: "foldl (scan_step d) (Outside, out) a = (m, out @ ns)"
    unfolding emits_def by blast
  from assms(2) m have s: "foldl (scan_step d) (m, out @ ns) s = (Outside, out @ ns)"
    unfolding resets_def by blast
  from assms(3) obtain m' where m': "m' = Outside \<or> m' = InNumber"
    and b: "foldl (scan_step d) (Outside, out @ ns) b = (m', (out @ ns) @ ms)"
    unfolding emits_def by blast
  from a s b m' show "\<exists>m. (m = Outside \<or> m = InNumber) \<and>
      foldl (scan_step d) (Outside, out) (a @ s @ b) = (m, out @ ns @ ms)"
    by simp
qed

lemma neutral_quoteIdentifier: "neutral d (quoteIdentifier name)"
proof -
  have inner: "foldl (scan_step d) (InIdentifier, out)
      (concat (map (\<lambda>c. if c = CHR 0x22 then [CHR 0x22, CHR 0x22] else [c]) name)) = (InIdentifier, out)" for out
    by (induction name) (auto simp: scan_outside_def)
  show ?thesis
    unfolding neutral_def quoteIdentifier_def
    by (simp add: inner scan_outside_def)
qed

lemma digit_of_nth:
  assumes "m < 10"
  shows "digit_of (''0123456789'' ! m) = Some m"
proof -
  from assms have "m = 0 \<or> m = 1 \<or> m = 2 \<or> m = 3 \<or> m = 4 \<or> m = 5 \<or> m = 6 \<or> m = 7
    \<or> m = 8 \<or> m = 9" by presburger
  then show ?thesis by (elim disjE) (simp_all add: digit_of_def)
qed

lemma scan_show_nat:
  "foldl (scan_step d) (InNumber, out @ [a]) (show_nat n)
     = (InNumber, out @ [a * 10 ^ length (show_nat n) + n])"
proof (induction n arbitrary: a rule: show_nat.induct)
  case (1 n)
  show ?case
  proof (cases "n < 10")
    case True
    then show ?thesis
      by (subst (1 2) show_nat.simps) (simp add: digit_of_nth)
  next
    case False
    have m: "n mod 10 < 10" by simp
    have "foldl (scan_step d) (InNumber, out @ [a]) (show_nat n)
        = scan_step d (foldl (scan_step d) (InNumber, out @ [a]) (show_nat (n div 10)))
            (''0123456789'' ! (n mod 10))"
      using False by (subst show_nat.simps) simp
    also have "\<dots> = (InNumber, out @ [10 * (a * 10 ^ length (show_nat (n div 10)) + n div 10) + n mod 10])"
      using 1 [OF False] by (simp add: digit_of_nth [OF m])
    also have "10 * (a * 10 ^ length (show_nat (n div 10)) + n div 10) + n mod 10
        = a * 10 ^ length (show_nat n) + n"
    proof -
      have "length (show_nat n) = Suc (length (show_nat (n div 10)))"
        using False by (subst show_nat.simps) simp
      then show ?thesis by (simp add: algebra_simps)
    qed
    finally show ?thesis .
  qed
qed

lemma emits_placeholder: "emits d (placeholder d i) (nums d i 1)"
proof (cases d)
  case Pg
  have "foldl (scan_step Pg) (Outside, out) (CHR ''$'' # show_nat i) = (InNumber, out @ [i])" for out
    using scan_show_nat [of Pg out 0 i] by (simp add: scan_outside_def)
  with Pg show ?thesis by (simp add: emits_def placeholder_def nums_def numbered_def)
next
  case Mysql2
  then show ?thesis by (simp add: emits_def placeholder_def nums_def numbered_def scan_outside_def)
next
  case Mssql
  have "foldl (scan_step Mssql) (Outside, out) (CHR ''@'' # CHR ''p'' # show_nat i) = (InNumber, out @ [i])" for out
    using scan_show_nat [of Mssql out 0 i] by (simp add: scan_outside_def)
  with Mssql show ?thesis by (simp add: emits_def placeholder_def nums_def numbered_def)
next
  case Sqlite
  then show ?thesis by (simp add: emits_def placeholder_def nums_def numbered_def scan_outside_def)
qed

lemma nums_add: "nums d i (n + k) = nums d i n @ nums d (i + n) k"
proof (cases "numbered d")
  case True
  have "[i..<i + (n + k)] = [i..<i + n] @ [i + n..<i + n + k]"
    by (metis add.assoc le_add1 upt_add_eq_append)
  with True show ?thesis by (simp add: nums_def)
next
  case False
  then show ?thesis by (simp add: nums_def replicate_add)
qed

lemma nums_0: "nums d i 0 = []"
  by (simp add: nums_def)

lemma nums_Nil_iff: "nums d i n = [] \<longleftrightarrow> n = 0"
  by (auto simp: nums_def)

lemma length_nums: "length (nums d i n) = n"
  by (simp add: nums_def)

lemma js_join_snoc:
  "js_join sep (ps @ [p]) = (if ps = [] then p else js_join sep ps @ sep @ p)"
  by (induction sep ps rule: js_join.induct) auto

lemma emits_join_snoc:
  assumes "emits d (js_join sep ps) ns" "resets d sep" "emits d p ms"
  shows "emits d (js_join sep (ps @ [p])) (ns @ ms)"
proof (cases "ps = []")
  case True
  with assms(1) have "ns = []" by (simp add: emits_Nil_iff)
  with True assms(3) show ?thesis by simp
next
  case False
  with emits_sep [OF assms] show ?thesis by (simp add: js_join_snoc)
qed

lemma resets_comma: "resets d '', ''"
  by (rule resets_plain) (simp_all add: plain_def digit_of_def)

lemma resets_AND: "resets d '' AND ''"
  by (rule resets_plain) (simp_all add: plain_def digit_of_def)

lemma resets_OR: "resets d '' OR ''"
  by (rule resets_plain) (simp_all add: plain_def digit_of_def)

lemma resets_close: "resets d '')''"
  by (rule resets_plain) (simp_all add: plain_def digit_of_def)

lemma emits_placeholder_list:
  "emits d (js_join '', '' (map (\<lambda>k. placeholder d (i + k)) [0..<n])) (nums d i n)"
proof (induction n)
  case 0
  show ?case by (simp add: emits_Nil nums_0)
next
  case (Suc n)
  have "emits d (js_join '', '' (map (\<lambda>k. placeholder d (i + k)) [0..<n] @ [placeholder d (i + n)]))
      (nums d i n @ nums d (i + n) 1)"
    by (rule emits_join_snoc [OF Suc resets_comma emits_placeholder])
  then show ?case using nums_add [of d i n 1] by simp
qed

lemma good_compare:
  assumes "neutral d q" "\<forall>c \<in> set lit. plain c"
  shows "good d i \<lparr> clause = q @ lit @ placeholder d i, vals = [v] \<rparr>"
  unfolding good_def
  using emits_prefix [OF assms(1) emits_prefix [OF neutral_plain [OF assms(2)] emits_placeholder]]
  by simp

lemma good_plain:
  assumes "neutral d q" "\<forall>c \<in> set lit. plain c"
  shows "good d i \<lparr> clause = q @ lit, vals = [] \<rparr>"
  unfolding good_def
  using neutral_emits [OF neutral_append [OF assms(1) neutral_plain [OF assms(2)]]]
  by (simp add: nums_0)

lemma good_const:
  assumes "\<forall>c \<in> set lit. plain c"
  shows "good d i \<lparr> clause = lit, vals = [] \<rparr>"
  unfolding good_def
  using neutral_emits [OF neutral_plain [OF assms]] by (simp add: nums_0)

lemma good_in_list:
  assumes "neutral d q" "\<forall>c \<in> set lit. plain c"
  shows "good d i \<lparr> clause = q @ lit @ js_join '', '' (map (\<lambda>k. placeholder d (i + k)) [0..<length arr]) @ '')'',
                    vals = arr \<rparr>"
  unfolding good_def
  using emits_prefix [OF assms(1) emits_prefix [OF neutral_plain [OF assms(2)]
        emits_suffix [OF emits_placeholder_list resets_close]]]
  by simp

lemma good_size:
  assumes "neutral d q" "\<forall>c \<in> set pre. plain c"
  shows "good d i \<lparr> clause = pre @ q @ '') = '' @ placeholder d i, vals = [v] \<rparr>"
proof -
  have "neutral d '') = ''" by (rule neutral_plain) (simp add: plain_def)
  from emits_prefix [OF neutral_plain [OF assms(2)] emits_prefix [OF assms(1)
        emits_prefix [OF this emits_placeholder]]]
  show ?thesis unfolding good_def by simp
qed

lemma good_regex:
  assumes "neutral d q"
  shows "good d i (translateRegexToSQL q pattern d i)"
proof -
  have a: "\<forall>c \<in> set '' ~ ''. plain c" "\<forall>c \<in> set '' REGEXP ''. plain c" "\<forall>c \<in> set '' LIKE ''. plain c"
    by (simp_all add: plain_def)
  show ?thesis
    using good_compare [OF assms a(1)] good_compare [OF assms a(2)] good_compare [OF assms a(3)]
    by (cases d) (simp_all add: translateRegexToSQL_def regexToLike_def Let_def)
qed

lemma all_plain_literals:
  "\<forall>c \<in> set '' IS NULL''. plain c"
  "\<forall>c \<in> set '' IS NOT NULL''. plain c"
  "\<forall>c \<in> set '' = ''. plain c"
  "\<forall>c \<in> set '' != ''. plain c"
  "\<forall>c \<in> set '' > ''. plain c"
  "\<forall>c \<in> set '' >= ''. plain c"
  "\<forall>c \<in> set '' < ''. plain c"
  "\<forall>c \<in> set '' <= ''. plain c"
  "\<forall>c \<in> set '' IN (''. plain c"
  "\<forall>c \<in> set '' NOT IN (''. plain c"
  "\<forall>c \<in> set ''1=0''. plain c"
  "\<forall>c \<in> set ''1=1''. plain c"
  "\<forall>c \<in> set ''jsonb_array_length(''. plain c"
  "\<forall>c \<in> set ''JSON_LENGTH(''. plain c"
  "\<forall>c \<in> set ''json_array_length(''. plain c"
  "\<forall>c \<in> set ''NOT (''. plain c"
  "\<forall>c \<in> set ''(''. plain c"
  by (simp_all add: plain_def)

lemma quoted_neutral: "quoted q \<Longrightarrow> neutral d q"
  by (simp add: quoted_def)

lemma quoted_quoteIdentifier: "quoted (quoteIdentifier name)"
  by (simp add: quoted_def neutral_quoteIdentifier)

lemma good_not:
  assumes "emits d (js_join '' AND '' ps) (nums d i (length vs))"
  shows "good d i \<lparr> clause = ''NOT ('' @ js_join '' AND '' ps @ '')'', vals = vs \<rparr>"
  unfolding good_def
  using emits_prefix [OF neutral_plain [OF all_plain_literals(16)] emits_suffix [OF assms resets_close]]
  by simp

lemma good_empty: "good d i \<lparr> clause = [], vals = [] \<rparr>"
  by (simp add: good_def emits_Nil nums_0)

lemma dense_spread: "\<forall>x \<in> set xs. dense x \<Longrightarrow> spread xs = xs"
proof (induction xs)
  case Nil
  show ?case by (simp add: spread_def)
next
  case (Cons x xs)
  then have "x \<noteq> JHole" by auto
  with Cons show ?case by (simp add: spread_def)
qed

lemma dense_object_entries:
  assumes "dense v" "object_entries v = Some es"
  shows "\<forall>kv \<in> set es. dense (snd kv)"
proof (cases v)
  case (JStr s)
  with assms(2) have "snd kv \<in> set (map (\<lambda>c. JStr [c]) s)" if "kv \<in> set es" for kv
    using that set_zip_rightD [of "fst kv" "snd kv" "map show_nat [0..<length s]" "map (\<lambda>c. JStr [c]) s"]
    by auto
  then show ?thesis by fastforce
next
  case (JArr xs)
  with assms(2) have "snd kv \<in> set xs" if "kv \<in> set es" for kv
    using that set_zip_rightD [of "fst kv" "snd kv" "map show_nat [0..<length xs]" xs]
    by auto
  with JArr assms(1) show ?thesis by auto
next
  case (JObj kvs)
  with assms show ?thesis by auto
qed (use assms in auto)

lemma in_placeholders_dense:
  assumes "\<forall>x \<in> set arr. dense x"
  shows "array_join '', '' (array_map (\<lambda>_ i. JStr (placeholder d (p + i))) arr)
    = js_join '', '' (map (\<lambda>k. placeholder d (p + k)) [0..<length arr])"
proof -
  have "array_map (\<lambda>_ i. JStr (placeholder d (p + i))) arr
      = map (\<lambda>ix. JStr (placeholder d (p + fst ix))) (zip [0..<length arr] arr)"
    unfolding array_map_def
  proof (rule map_cong [OF refl])
    fix ix assume "ix \<in> set (zip [0..<length arr] arr)"
    then have "snd ix \<in> set arr"
      using set_zip_rightD [of "fst ix" "snd ix" "[0..<length arr]" arr] by simp
    with assms have "snd ix \<noteq> JHole" by auto
    then show "(case ix of (i, x) \<Rightarrow> if x = JHole then JHole else JStr (placeholder d (p + i)))
        = JStr (placeholder d (p + fst ix))"
      by (cases ix) simp
  qed
  then have "array_join '', '' (array_map (\<lambda>_ i. JStr (placeholder d (p + i))) arr)
      = js_join '', '' (map ((\<lambda>k. placeholder d (p + k)) \<circ> fst) (zip [0..<length arr] arr))"
    by (simp add: array_join_def comp_def)
  also have "map ((\<lambda>k. placeholder d (p + k)) \<circ> fst) (zip [0..<length arr] arr)
      = map (\<lambda>k. placeholder d (p + k)) (map fst (zip [0..<length arr] arr))"
    by (simp only: map_map)
  also have "map fst (zip [0..<length arr] arr) = [0..<length arr]"
    by (rule map_fst_zip) simp
  finally show ?thesis .
qed

lemma translateOperatorToSQL_good:
  "translateOperatorToSQL q op v d i = Inr r \<Longrightarrow> quoted q \<Longrightarrow> dense v \<Longrightarrow> good d i r"
  and notLoop_good:
  "notLoop q es d ps vs idx = Inr (ps', vs') \<Longrightarrow> quoted q \<Longrightarrow>
     emits d (js_join '' AND '' ps) (nums d i0 (length vs)) \<Longrightarrow> idx = i0 + length vs \<Longrightarrow>
     \<forall>kv \<in> set es. dense (snd kv) \<Longrightarrow>
     emits d (js_join '' AND '' ps') (nums d i0 (length vs'))"
proof (induction q op v d i and q es d ps vs idx arbitrary: r and ps' vs' i0
    rule: translateOperatorToSQL_notLoop.induct)
  case (1 quotedKey op v dialect paramIdx)
  note n = quoted_neutral [OF "1.prems"(2)]
  note lits = all_plain_literals
  note simple =
    good_compare [OF n lits(3), simplified] good_compare [OF n lits(4), simplified]
    good_compare [OF n lits(5), simplified] good_compare [OF n lits(6), simplified]
    good_compare [OF n lits(7), simplified] good_compare [OF n lits(8), simplified]
    good_plain [OF n lits(1), simplified] good_plain [OF n lits(2), simplified]
    good_const [OF lits(11), simplified] good_const [OF lits(12), simplified]
    good_in_list [OF n lits(9), simplified] good_in_list [OF n lits(10), simplified]
    good_size [OF n lits(13), simplified] good_size [OF n lits(14), simplified]
    good_size [OF n lits(15), simplified] good_regex [OF n] good_empty
  show ?case
  proof (cases "op = ''$not''")
    case False
    with "1.prems"(1,3) show ?thesis
      by (subst (asm) translateOperatorToSQL.simps)
        (auto simp: simple Let_def in_placeholders_dense split: if_splits jsval.splits)
  next
    case True
    with "1.prems"(1) obtain sub parts vals0 where
      sub: "object_entries v = Some sub"
      and loop: "notLoop quotedKey sub dialect [] [] paramIdx = Inr (parts, vals0)"
      and r: "r = (if length parts = 0 then \<lparr> clause = [], vals = [] \<rparr>
                   else \<lparr> clause = ''NOT ('' @ js_join '' AND '' parts @ '')'', vals = vals0 \<rparr>)"
      by (subst (asm) translateOperatorToSQL.simps)
        (auto split: option.splits sum.splits prod.splits if_splits)
    have "emits dialect (js_join '' AND '' parts) (nums dialect paramIdx (length vals0))"
      using "1.IH" [OF _ _ _ _ _ _ _ _ _ _ _ _ sub loop "1.prems"(2), of paramIdx] True
        dense_object_entries [OF "1.prems"(3) sub]
      by (simp add: emits_Nil nums_0)
    from r good_not [OF this] show ?thesis by (simp add: good_empty)
  qed
next
  case (2 quotedKey dialect parts vals0 idx)
  then show ?case by simp
next
  case (3 quotedKey subOp subVal rest dialect parts vals0 idx)
  from "3.prems"(1) obtain result where
    res: "translateOperatorToSQL quotedKey subOp subVal dialect idx = Inr result"
    by (auto split: sum.splits)
  from "3.prems"(5) have dv: "dense subVal" and dr: "\<forall>kv \<in> set rest. dense (snd kv)"
    by simp_all
  from "3.IH"(1) [OF res "3.prems"(2) dv] have g: "good dialect idx result" .
  show ?case
  proof (cases "clause result \<noteq> []")
    case True
    with "3.prems"(1) res have
      loop: "notLoop quotedKey rest dialect (parts @ [clause result]) (vals0 @ spread (vals result))
          (idx + length (vals result)) = Inr (ps', vs')" by simp
    have "emits dialect (js_join '' AND '' (parts @ [clause result]))
        (nums dialect i0 (length vals0) @ nums dialect idx (length (vals result)))"
      using emits_join_snoc [OF "3.prems"(3) resets_AND] g by (simp add: good_def)
    then have e: "emits dialect (js_join '' AND '' (parts @ [clause result]))
        (nums dialect i0 (length (vals0 @ spread (vals result))))"
      using "3.prems"(4) by (simp add: nums_add length_spread)
    show ?thesis
      by (rule "3.IH"(2) [OF res True loop "3.prems"(2) e _ dr])
        (simp add: "3.prems"(4) length_spread)
  next
    case False
    with "3.prems"(1) res have
      loop: "notLoop quotedKey rest dialect parts vals0 idx = Inr (ps', vs')" by simp
    show ?thesis
      by (rule "3.IH"(3) [OF res _ loop "3.prems"(2,3,4) dr]) (use False in simp)
  qed
qed

lemma opsLoop_good:
  "opsLoop q ops d ps vs idx = Inr (ps', vs', idx') \<Longrightarrow> quoted q \<Longrightarrow>
     emits d (js_join '' AND '' ps) (nums d i0 (length vs)) \<Longrightarrow> idx = i0 + length vs \<Longrightarrow>
     \<forall>kv \<in> set ops. dense (snd kv) \<Longrightarrow>
     emits d (js_join '' AND '' ps') (nums d i0 (length vs')) \<and> idx' = i0 + length vs'"
proof (induction ops arbitrary: ps vs idx)
  case Nil
  then show ?case by auto
next
  case (Cons kv rest)
  obtain op v where kv: "kv = (op, v)" by (cases kv)
  from Cons.prems(5) kv have dv: "dense v" and dr: "\<forall>kv \<in> set rest. dense (snd kv)"
    by simp_all
  from Cons.prems(1) kv obtain result where
    res: "translateOperatorToSQL q op v d idx = Inr result"
    and loop: "opsLoop q rest d (ps @ [clause result]) (vs @ spread (vals result))
        (idx + length (vals result)) = Inr (ps', vs', idx')"
    by (auto split: sum.splits)
  from translateOperatorToSQL_good [OF res Cons.prems(2) dv] have g: "good d idx result" .
  have "emits d (js_join '' AND '' (ps @ [clause result]))
      (nums d i0 (length vs) @ nums d idx (length (vals result)))"
    using emits_join_snoc [OF Cons.prems(3) resets_AND] g by (simp add: good_def)
  then have e: "emits d (js_join '' AND '' (ps @ [clause result]))
      (nums d i0 (length (vs @ spread (vals result))))"
    using Cons.prems(4) by (simp add: nums_add length_spread)
  show ?case
    by (rule Cons.IH [OF loop Cons.prems(2) e _ dr]) (simp add: Cons.prems(4) length_spread)
qed

lemma resets_joiner: "resets d (if key = ''$and'' then '' AND '' else '' OR '')"
  by (simp add: resets_AND resets_OR)

lemma emits_paren:
  assumes "emits d s ns"
  shows "emits d (''('' @ s @ '')'') ns"
  using emits_prefix [OF neutral_plain [OF all_plain_literals(17)] emits_suffix [OF assms resets_close]]
  by simp

lemma emits_not_paren:
  assumes "emits d s ns"
  shows "emits d (''NOT ('' @ s @ '')'') ns"
  using emits_prefix [OF neutral_plain [OF all_plain_literals(16)] emits_suffix [OF assms resets_close]]
  by simp

lemma translateToSQL_good:
  "translateToSQL flt d i = Inr r \<Longrightarrow> dense flt \<Longrightarrow> good d i r"
  and entriesLoop_good:
  "entriesLoop es d ps vs idx = Inr (ps', vs') \<Longrightarrow>
     emits d (js_join '' AND '' ps) (nums d i0 (length vs)) \<Longrightarrow> idx = i0 + length vs \<Longrightarrow>
     \<forall>kv \<in> set es. dense (snd kv) \<Longrightarrow>
     emits d (js_join '' AND '' ps') (nums d i0 (length vs'))"
  and subLoop_good:
  "subLoop fs d sc vs idx = Inr (sc', vs', idx') \<Longrightarrow> resets d sep \<Longrightarrow>
     emits d (js_join sep sc) (nums d j0 (idx - j0)) \<Longrightarrow> j0 \<le> idx \<Longrightarrow>
     \<forall>f \<in> set fs. dense f \<Longrightarrow>
     emits d (js_join sep sc') (nums d j0 (idx' - j0)) \<and> idx \<le> idx' \<and>
     length vs' = length vs + (idx' - idx)"
proof (induction flt d i and es d ps vs idx and fs d sc vs idx
    arbitrary: r and ps' vs' i0 and sc' vs' idx' sep j0
    rule: translateToSQL_entriesLoop_subLoop.induct)
  case (1 flt dialect startIdx)
  show ?case
  proof (cases "if js_truthy flt then object_entries flt else None")
    case None
    with "1.prems" have "r = \<lparr> clause = ''1=1'', vals = [] \<rparr>" by simp
    with good_const [OF all_plain_literals(12)] show ?thesis by simp
  next
    case (Some es)
    then have "object_entries flt = Some es" by (simp split: if_splits)
    from dense_object_entries [OF "1.prems"(2) this]
    have des: "\<forall>kv \<in> set es. dense (snd kv)" .
    show ?thesis
    proof (cases "length (map fst es) = 0")
      case True
      with Some "1.prems" have "r = \<lparr> clause = ''1=1'', vals = [] \<rparr>" by simp
      with good_const [OF all_plain_literals(12)] show ?thesis by simp
    next
      case False
      with Some "1.prems" obtain parts vals0 where
        loop: "entriesLoop es dialect [] [] startIdx = Inr (parts, vals0)"
        and r: "r = \<lparr> clause = (if length parts > 0 then js_join '' AND '' parts else ''1=1''),
                       vals = vals0 \<rparr>"
        by (auto split: sum.splits prod.splits)
      have e: "emits dialect (js_join '' AND '' parts) (nums dialect startIdx (length vals0))"
        using "1.IH" [OF Some False loop, of startIdx] des by (simp add: emits_Nil nums_0)
      show ?thesis
      proof (cases "parts = []")
        case True
        with e have "nums dialect startIdx (length vals0) = []" by (simp add: emits_Nil_iff)
        then have "vals0 = []" by (simp add: nums_Nil_iff)
        with True r good_const [OF all_plain_literals(12), of dialect startIdx] show ?thesis by simp
      next
        case False
        with r e show ?thesis by (simp add: good_def)
      qed
    qed
  qed
next
  case (2 dialect parts vals0 paramIdx)
  then show ?case by simp
next
  case (3 key v rest dialect parts vals0 paramIdx)
  note run = "3.prems"(1) and e0 = "3.prems"(2) and i0 = "3.prems"(3)
  from "3.prems"(4) have dv: "dense v" and dr: "\<forall>kv \<in> set rest. dense (snd kv)"
    by simp_all
  show ?case
  proof (cases "isLogicalKey key")
    case True
    show ?thesis
    proof (cases "\<exists>fs. v = JArr fs \<and> length fs \<noteq> 0")
      case False
      with True run have loop: "entriesLoop rest dialect parts vals0 paramIdx = Inr (ps', vs')"
        by (auto split: jsval.splits if_splits)
      from False True loop e0 i0 dr "3.IH"(1-8,13,14) show ?thesis
        by (cases v) auto
    next
      case True': True
      then obtain fs where v: "v = JArr fs" and fs: "length fs \<noteq> 0" by blast
      from dv v have dfs: "\<forall>f \<in> set (spread fs). dense f"
        by (simp add: dense_spread)
      from True v fs run obtain sc1 vs1 idx1 where
        sub: "subLoop (spread fs) dialect [] vals0 paramIdx = Inr (sc1, vs1, idx1)"
        by (auto split: sum.splits)
      have sub_good: "emits dialect (js_join sep sc1) (nums dialect paramIdx (idx1 - paramIdx)) \<and>
          paramIdx \<le> idx1 \<and> length vs1 = length vals0 + (idx1 - paramIdx)"
        if "resets dialect sep" for sep
        using "3.IH"(9) [OF True v fs sub that, of paramIdx] dfs by (simp add: emits_Nil nums_0)
      from sub_good [OF resets_OR] have le: "paramIdx \<le> idx1"
        and len: "length vs1 = length vals0 + (idx1 - paramIdx)" by simp_all
      from i0 le len have i1: "idx1 = i0 + length vs1" by simp
      have split: "nums dialect i0 (length vs1)
          = nums dialect i0 (length vals0) @ nums dialect paramIdx (idx1 - paramIdx)"
        using len i0 nums_add [of dialect i0 "length vals0" "idx1 - paramIdx"] by simp
      show ?thesis
      proof (cases "length sc1 > 0")
        case False
        then have "sc1 = []" by simp
        with sub_good [OF resets_OR] have "idx1 - paramIdx = 0"
          by (simp add: emits_Nil_iff nums_Nil_iff)
        with len have len0: "length vs1 = length vals0" by simp
        from True v fs sub False run have
          loop: "entriesLoop rest dialect parts vs1 idx1 = Inr (ps', vs')" by simp
        from e0 len0 have e1: "emits dialect (js_join '' AND '' parts) (nums dialect i0 (length vs1))"
          by simp
        show ?thesis
          by (rule "3.IH"(12) [OF True v fs sub refl refl False loop e1 i1 dr])
      next
        case nonempty: True
        show ?thesis
        proof (cases "key = ''$nor''")
          case nor: True
          let ?part = "''NOT ('' @ js_join '' OR '' sc1 @ '')''"
          from True v fs sub nonempty nor run have
            loop: "entriesLoop rest dialect (parts @ [?part]) vs1 idx1 = Inr (ps', vs')" by simp
          have "emits dialect ?part (nums dialect paramIdx (idx1 - paramIdx))"
            using emits_not_paren sub_good [OF resets_OR] by blast
          from emits_join_snoc [OF e0 resets_AND this] split
          have e1: "emits dialect (js_join '' AND '' (parts @ [?part])) (nums dialect i0 (length vs1))"
            by simp
          show ?thesis
            by (rule "3.IH"(10) [OF True v fs sub refl refl nonempty nor loop e1 i1 dr])
        next
          case nor: False
          let ?joiner = "if key = ''$and'' then '' AND '' else '' OR ''"
          let ?part = "''('' @ js_join ?joiner sc1 @ '')''"
          from True v fs sub nonempty nor run have
            loop: "entriesLoop rest dialect (parts @ [?part]) vs1 idx1 = Inr (ps', vs')"
            by (simp add: Let_def)
          have "emits dialect ?part (nums dialect paramIdx (idx1 - paramIdx))"
            using emits_paren sub_good [OF resets_joiner] by blast
          from emits_join_snoc [OF e0 resets_AND this] split
          have e1: "emits dialect (js_join '' AND '' (parts @ [?part])) (nums dialect i0 (length vs1))"
            by simp
          show ?thesis
            by (rule "3.IH"(11) [OF True v fs sub refl refl nonempty nor refl loop e1 i1 dr])
        qed
      qed
    qed
  next
    case False
    with run have nd: "\<not> startsWith key ''$''" by (auto split: if_splits)
    let ?q = "quoteIdentifier key"
    note q = quoted_quoteIdentifier [of key]
    show ?thesis
    proof (cases "v = JNull \<or> v = JUndefined")
      case True
      let ?part = "?q @ '' IS NULL''"
      from False nd True run have
        loop: "entriesLoop rest dialect (parts @ [?part]) vals0 paramIdx = Inr (ps', vs')"
        by (auto simp: Let_def)
      have "emits dialect ?part []"
        by (rule neutral_emits [OF neutral_append [OF quoted_neutral [OF q]
              neutral_plain [OF all_plain_literals(1)]]])
      from emits_join_snoc [OF e0 resets_AND this]
      have e1: "emits dialect (js_join '' AND '' (parts @ [?part])) (nums dialect i0 (length vals0))"
        by simp
      show ?thesis
        by (rule "3.IH"(15) [OF False nd refl True loop e1 i0 dr])
    next
      case notnull: False
      show ?thesis
      proof (cases "\<exists>ops. v = JObj ops")
        case True
        then obtain ops where ops: "v = JObj ops" by blast
        from dv ops have dops: "\<forall>kv \<in> set ops. dense (snd kv)" by simp
        from False nd notnull ops run obtain parts1 vs1 idx1 where
          ol: "opsLoop ?q ops dialect parts vals0 paramIdx = Inr (parts1, vs1, idx1)"
          and loop: "entriesLoop rest dialect parts1 vs1 idx1 = Inr (ps', vs')"
          by (auto simp: Let_def split: sum.splits)
        from opsLoop_good [OF ol q e0 i0 dops] have
          e1: "emits dialect (js_join '' AND '' parts1) (nums dialect i0 (length vs1))"
          and i1: "idx1 = i0 + length vs1" by simp_all
        show ?thesis
          by (rule "3.IH"(24) [OF False nd refl notnull ops ol refl refl loop e1 i1 dr])
      next
        case noobj: False
        let ?part = "?q @ '' = '' @ placeholder dialect paramIdx"
        from False nd notnull noobj run have
          loop: "entriesLoop rest dialect (parts @ [?part]) (vals0 @ [v]) (paramIdx + 1) = Inr (ps', vs')"
          by (cases v) (auto simp: Let_def)
        have "emits dialect ?part (nums dialect paramIdx 1)"
          by (rule emits_prefix [OF quoted_neutral [OF q]
                emits_prefix [OF neutral_plain [OF all_plain_literals(3)] emits_placeholder]])
        from emits_join_snoc [OF e0 resets_AND this] i0
        have e1: "emits dialect (js_join '' AND '' (parts @ [?part]))
            (nums dialect i0 (length (vals0 @ [v])))"
          using nums_add [of dialect i0 "length vals0" 1] by simp
        have i1: "paramIdx + 1 = i0 + length (vals0 @ [v])" using i0 by simp
        from False nd notnull noobj loop e1 i1 dr "3.IH"(16-23,25) show ?thesis
          by (cases v) auto
      qed
    qed
  qed
next
  case (4 dialect subClauses vals0 paramIdx)
  then show ?case by auto
next
  case (5 subFilter rest dialect subClauses vals0 paramIdx)
  note run = "5.prems"(1) and rs = "5.prems"(2) and e0 = "5.prems"(3) and j0 = "5.prems"(4)
  from "5.prems"(5) have ds: "dense subFilter" and dr: "\<forall>f \<in> set rest. dense f"
    by simp_all
  from run obtain sub where
    res: "translateToSQL subFilter dialect paramIdx = Inr sub"
    by (auto split: sum.splits)
  from "5.IH"(1) [OF res ds] have g: "good dialect paramIdx sub" .
  show ?case
  proof (cases "clause sub \<noteq> [] \<and> clause sub \<noteq> ''1=1''")
    case True
    let ?part = "''('' @ clause sub @ '')''"
    let ?idx1 = "paramIdx + length (vals sub)"
    from True res run have
      loop: "subLoop rest dialect (subClauses @ [?part]) (vals0 @ spread (vals sub)) ?idx1
          = Inr (sc', vs', idx')"
      by simp
    have "emits dialect ?part (nums dialect paramIdx (length (vals sub)))"
      using emits_paren g by (simp add: good_def)
    from emits_join_snoc [OF e0 rs this]
    have e1: "emits dialect (js_join sep (subClauses @ [?part])) (nums dialect j0 (?idx1 - j0))"
      using j0 nums_add [of dialect j0 "paramIdx - j0" "length (vals sub)"] by simp
    have j1: "j0 \<le> ?idx1" using j0 by simp
    from "5.IH"(2) [OF res True loop rs e1 j1 dr] show ?thesis by (auto simp: length_spread)
  next
    case False
    with res run have
      loop: "subLoop rest dialect subClauses vals0 paramIdx = Inr (sc', vs', idx')"
      by auto
    from "5.IH"(3) [OF res False loop rs e0 j0 dr] show ?thesis .
  qed
qed

text \<open>
  For a dense filter the invariant holds: whenever \<open>translateToSQL\<close> returns, started at
  index 1, the clause holds exactly as many placeholders as there are values, and for
  the numbered dialects (PostgreSQL and MSSQL) the placeholders read, in order of
  occurrence, 1, 2, ... up to the number of values. A field name may contain any
  character, also the placeholder characters.
\<close>

lemma translateToSQL_dense_placeholders_match_values:
  assumes "translateToSQL flt d 1 = Inr r" and "dense flt"
  shows "length (placeholder_numbers d (clause r)) = length (vals r) \<and>
    (d = Pg \<or> d = Mssql \<longrightarrow> placeholder_numbers d (clause r) = [1..<Suc (length (vals r))])"
proof -
  from translateToSQL_good [OF assms] obtain m where
    "foldl (scan_step d) (Outside, []) (clause r) = (m, [] @ nums d 1 (length (vals r)))"
    unfolding good_def emits_def by blast
  then have p: "placeholder_numbers d (clause r) = nums d 1 (length (vals r))"
    by (simp add: placeholder_numbers_def)
  have "nums d 1 (length (vals r)) = [1..<Suc (length (vals r))]" if "d = Pg \<or> d = Mssql"
    using that by (simp add: nums_def numbered_def)
  with p show ?thesis by (simp add: length_nums)
qed

lemma translateToSQL_dense_placeholders_example:
  \<open>placeholder_numbers Pg ''"a$9" = $1 AND (("b" IN ($2, $3)) OR ("c?" IS NULL))'' = [1, 2, 3] \<and>
   length (placeholder_numbers Mysql2 ''"a$9" = ? AND (("b" IN (?, ?)) OR ("c?" IS NULL))'') = 3\<close>
proof -
  let ?flt = "JObj [(''a$9'', JNum 5),
    (''$or'', JArr [JObj [(''b'', JObj [(''$in'', JArr [JNum 1, JNum 2])])], JObj [(''c?'', JNull)]])]"
  have pg: \<open>translateToSQL ?flt Pg 1
      = Inr \<lparr> clause = ''"a$9" = $1 AND (("b" IN ($2, $3)) OR ("c?" IS NULL))'',
              vals = [JNum 5, JNum 1, JNum 2] \<rparr>\<close>
    by code_simp
  have my: \<open>translateToSQL ?flt Mysql2 1
      = Inr \<lparr> clause = ''"a$9" = ? AND (("b" IN (?, ?)) OR ("c?" IS NULL))'',
              vals = [JNum 5, JNum 1, JNum 2] \<rparr>\<close>
    by code_simp
  have dn: "dense ?flt" by simp
  have u: "[1..<Suc 3] = [1, 2, 3]" by code_simp
  from translateToSQL_dense_placeholders_match_values [OF pg dn]
    translateToSQL_dense_placeholders_match_values [OF my dn] u
  show ?thesis by simp
qed

text \<open>
  Claim C1. The invariant fails on a sparse array under \<^verbatim>\<open>$in\<close> (and \<^verbatim>\<open>$nin\<close>). For
  \<^verbatim>\<open>translateToSQL({a: {$in: [1,,3]}, b: 7}, dialect)\<close> the list of placeholders is
  built by \<^verbatim>\<open>arr.map\<close>, which passes over the empty slot, while \<^verbatim>\<open>join\<close> prints the
  slot as an empty item and the spread into \<^verbatim>\<open>values\<close> reads it as undefined. The
  clause has three placeholders and there are four values; for PostgreSQL the
  placeholders are numbered 1, 3, 4, which is not the dense numbering 1, 2, 3, 4.
\<close>

theorem translateToSQL_sparse_in_placeholders_differ:
  \<open>translateToSQL (JObj [(''a'', JObj [(''$in'', JArr [JNum 1, JHole, JNum 3])]), (''b'', JNum 7)]) Pg 1
     = Inr \<lparr> clause = ''"a" IN ($1, , $3) AND "b" = $4'',
             vals = [JNum 1, JUndefined, JNum 3, JNum 7] \<rparr> \<and>
   placeholder_numbers Pg ''"a" IN ($1, , $3) AND "b" = $4'' = [1, 3, 4] \<and>
   translateToSQL (JObj [(''a'', JObj [(''$in'', JArr [JNum 1, JHole, JNum 3])]), (''b'', JNum 7)]) Mysql2 1
     = Inr \<lparr> clause = ''"a" IN (?, , ?) AND "b" = ?'',
             vals = [JNum 1, JUndefined, JNum 3, JNum 7] \<rparr> \<and>
   length (placeholder_numbers Mysql2 ''"a" IN (?, , ?) AND "b" = ?'') = 3\<close>
  by code_simp

section \<open>Agreement with the repository's tests\<close>

text \<open>
  Expectations of the repository's own test suite, and a few evaluations in the same
  style, on the model: the translators, the statement builder and the identifier
  quoting return what the tests expect of the source.
\<close>

lemma test_sql_empty_filter:
  \<open>translateToSQL (JObj []) Pg 1 = Inr \<lparr>clause = ''1=1'', vals = []\<rparr>\<close>
  by code_simp

lemma test_sql_null:
  \<open>translateToSQL (JObj [(''email'', JNull)]) Pg 1 = Inr \<lparr>clause = ''"email" IS NULL'', vals = []\<rparr>\<close>
  by code_simp

lemma test_sql_nin:
  \<open>translateToSQL (JObj [(''role'', JObj [(''$nin'', JArr [JStr ''banned'', JStr ''suspended''])])]) Pg 1
  = Inr \<lparr>clause = ''"role" NOT IN ($1, $2)'', vals = [JStr ''banned'', JStr ''suspended'']\<rparr>\<close>
  by code_simp

lemma test_sql_exists_false:
  \<open>translateToSQL (JObj [(''email'', JObj [(''$exists'', JBool False)])]) Pg 1
  = Inr \<lparr>clause = ''"email" IS NULL'', vals = []\<rparr>\<close>
  by code_simp

lemma test_sql_regex_mysql:
  \<open>translateToSQL (JObj [(''name'', JObj [(''$regex'', JStr ''^Tim'')])]) Mysql2 1
  = Inr \<lparr>clause = ''"name" REGEXP ?'', vals = [JStr ''^Tim'']\<rparr>\<close>
  by code_simp

lemma test_sql_not:
  \<open>translateToSQL (JObj [(''age'', JObj [(''$not'', JObj [(''$gt'', JNum 18)])])]) Pg 1
  = Inr \<lparr>clause = ''NOT ("age" > $1)'', vals = [JNum 18]\<rparr>\<close>
  by code_simp

lemma test_sql_and:
  \<open>translateToSQL (JObj [(''$and'', JArr [JObj [(''age'', JObj [(''$gte'', JNum 18)])], JObj [(''role'', JStr ''admin'')]])]) Pg 1
  = Inr \<lparr>clause = ''(("age" >= $1) AND ("role" = $2))'', vals = [JNum 18, JStr ''admin'']\<rparr>\<close>
  by code_simp

lemma test_sql_nor:
  \<open>translateToSQL (JObj [(''$nor'', JArr [JObj [(''role'', JStr ''banned'')], JObj [(''status'', JStr ''inactive'')]])]) Pg 1
  = Inr \<lparr>clause = ''NOT (("role" = $1) OR ("status" = $2))'', vals = [JStr ''banned'', JStr ''inactive'']\<rparr>\<close>
  by code_simp

lemma test_sql_empty_in:
  \<open>translateToSQL (JObj [(''role'', JObj [(''$in'', JArr [])])]) Pg 1
  = Inr \<lparr>clause = ''1=0'', vals = []\<rparr>\<close>
  by code_simp

lemma test_sql_unknown_operator:
  \<open>\<exists>e. translateToSQL (JObj [(''age'', JObj [(''$unknown'', JNum 5)])]) Pg 1 = Inl (Thrown e)
  \<and> take 34 (err_message e) = ''Unknown filter operator "$unknown"''\<close>
  by (simp add: js_truthy_def startsWith_def isLogicalKey_def quoteIdentifier_def unknownFilterOperator_def StrictDBError_def)

lemma test_elastic_empty_filter:
  \<open>translateToElastic (JObj []) = Inr (JObj [(''match_all'', JObj [])])\<close>
  by code_simp

lemma test_elastic_range:
  \<open>translateToElastic (JObj [(''age'', JObj [(''$gte'', JNum 18), (''$lt'', JNum 65)])])
  = Inr (JObj [(''range'', JObj [(''age'', JObj [(''gte'', JNum 18), (''lt'', JNum 65)])])])\<close>
  by code_simp

lemma test_elastic_not:
  \<open>translateToElastic (JObj [(''age'', JObj [(''$not'', JObj [(''$gt'', JNum 18)])])])
  = Inr (JObj [(''bool'', JObj [(''must_not'', JArr [JObj [(''range'', JObj [(''age'', JObj [(''gt'', JNum 18)])])]])])])\<close>
  by code_simp

lemma test_elastic_two_fields:
  \<open>translateToElastic (JObj [(''role'', JStr ''admin''), (''age'', JObj [(''$gte'', JNum 18)])])
  = Inr (JObj [(''bool'', JObj [(''must'', JArr [JObj [(''term'', JObj [(''role'', JStr ''admin'')])],
       JObj [(''range'', JObj [(''age'', JObj [(''gte'', JNum 18)])])]])])])\<close>
  by code_simp

lemma test_elastic_exists:
  \<open>translateToElastic (JObj [(''email'', JObj [(''$exists'', JBool True)])])
  = Inr (JObj [(''exists'', JObj [(''field'', JStr ''email'')])])\<close>
  by code_simp

lemma test_elastic_regex_options:
  \<open>translateToElastic (JObj [(''name'', JObj [(''$regex'', JStr ''^a''), (''$options'', JStr ''i'')])])
  = Inr (JObj [(''regexp'', JObj [(''name'', JStr ''^a'')])])\<close>
  by code_simp

lemma test_mssql_skip_limit_sort:
  \<open>buildSelectSQL ''users'' (JObj []) \<lparr>so_sort = Some [(''name'', JNum 1)], so_limit = Some 5, so_skip = Some 10, so_projection = None, so_dialect = Some Mssql\<rparr>
  = Inr \<lparr> q_sql = ''SELECT * FROM "users" ORDER BY "name" ASC OFFSET 10 ROWS FETCH NEXT 5 ROWS ONLY'', q_values = [] \<rparr>\<close>
  by code_simp

lemma test_mssql_skip_only:
  \<open>buildSelectSQL ''users'' (JObj []) \<lparr>so_sort = None, so_limit = None, so_skip = Some 10, so_projection = None, so_dialect = Some Mssql\<rparr>
  = Inr \<lparr> q_sql = ''SELECT * FROM "users" ORDER BY (SELECT NULL) OFFSET 10 ROWS'', q_values = [] \<rparr>\<close>
  by code_simp

lemma test_select_default_dialect:
  \<open>buildSelectSQL ''users'' (JObj [(''age'', JNum 25)]) \<lparr>so_sort = Some [(''createdAt'', JNum (-1))], so_limit = Some 5, so_skip = Some 10, so_projection = Some [(''name'', JNum 1), (''pw'', JNum 0)], so_dialect = None\<rparr>
  = Inr \<lparr> q_sql = ''SELECT "name" FROM "users" WHERE "age" = $1 ORDER BY "createdAt" DESC LIMIT 5 OFFSET 10'', q_values = [JNum 25] \<rparr>\<close>
  by code_simp

lemma test_update_inc:
  \<open>translateUpdateToSQL \<lparr>u_set = None, u_inc = Some [(''count'', JNum 1)], u_unset = None, u_push = None, u_pull = None\<rparr> Pg 1
  = Inr \<lparr> setClauses = ''"count" = "count" + $1'', uvals = [JNum 1] \<rparr>\<close>
  by code_simp

lemma test_quoteIdentifier:
  \<open>quoteIdentifier ''a"b'' = ''"a""b"''\<close>
  by code_simp

end
